theory Spec2Isabelle
  imports Complex_Main "HOL-Library.Word"
begin

section \<open>The bytecode virtual machine of vm.c\<close>

text \<open>
  The development embeds \<^verbatim>\<open>src/vm.c\<close>: the growable stack of tagged values, the
  dispatch loop \<^verbatim>\<open>run\<close> with its helper macros, and \<^verbatim>\<open>runtimeError\<close>.

  Conventions of the embedding.
  \<^item> A run that leaves defined C behaviour ends in a \<open>fault\<close>: a failed \<^verbatim>\<open>assert\<close>
    (the assertions are compiled in, i.e. \<^verbatim>\<open>NDEBUG\<close> is not defined), a read or write
    outside a buffer, a read of a slot that was never written, or a read of the
    wrong member of a value.
  \<^item> The payload of a number is a C \<^verbatim>\<open>double\<close>. Its arithmetic is not fixed here:
    the type of payloads is a type variable and every operator the code applies to
    a \<^verbatim>\<open>double\<close> is a field of the record \<open>platform\<close>, so that the general theorems
    hold for whatever these operators compute. Concrete examples are evaluated on
    \<open>real_platform\<close>, where payloads are real numbers.
  \<^item> The headers \<^verbatim>\<open>vm.h\<close>, \<^verbatim>\<open>chunk.h\<close>, \<^verbatim>\<open>value.h\<close> and \<^verbatim>\<open>orion_memory.h\<close> are not among
    the sources. The numbering of the opcodes is the field \<open>opcode_of\<close> of the
    platform, the default capacity is an argument of \<open>initStack\<close>, and the fields
    \<^verbatim>\<open>count\<close> and \<^verbatim>\<open>capacity\<close> are integers without a bound.
  \<^item> Standard output and standard error are lists of items, in the order printed.
\<close>

subsection \<open>Values\<close>

datatype 'n Value = NIL_VAL | BOOL_VAL bool | NUMBER_VAL 'n

datatype ValueType = VAL_NIL | VAL_BOOL | VAL_NUMBER

fun type_of :: "'n Value \<Rightarrow> ValueType" where
  "type_of NIL_VAL = VAL_NIL"
| "type_of (BOOL_VAL b) = VAL_BOOL"
| "type_of (NUMBER_VAL x) = VAL_NUMBER"

datatype fault = AssertionFailed | OutOfBounds | Uninitialised | WrongMember

definition and_then :: "fault + 'a \<Rightarrow> ('a \<Rightarrow> fault + 'b) \<Rightarrow> fault + 'b" where
  "and_then r k = (case r of Inl f \<Rightarrow> Inl f | Inr x \<Rightarrow> k x)"

definition IS_NUMBER :: "'n Value \<Rightarrow> bool" where
  "IS_NUMBER v = (type_of v = VAL_NUMBER)"

fun AS_NUMBER :: "'n Value \<Rightarrow> fault + 'n" where
  "AS_NUMBER (NUMBER_VAL x) = Inr x"
| "AS_NUMBER v = Inl WrongMember"

fun AS_BOOL :: "'n Value \<Rightarrow> fault + bool" where
  "AS_BOOL (BOOL_VAL b) = Inr b"
| "AS_BOOL v = Inl WrongMember"

text \<open>
  Modelled from the spec: \<^verbatim>\<open>isFalseyValue\<close> and \<^verbatim>\<open>toBool\<close>, which \<^verbatim>\<open>run\<close> calls and whose
  definitions are not among the sources. The spec's truthiness rule: nil and false
  are falsey, true and every number are truthy.
\<close>

fun isFalseyValue :: "'n Value \<Rightarrow> bool" where
  "isFalseyValue NIL_VAL = True"
| "isFalseyValue (BOOL_VAL b) = (\<not> b)"
| "isFalseyValue (NUMBER_VAL x) = False"

definition toBool :: "'n Value \<Rightarrow> bool" where
  "toBool v = (\<not> isFalseyValue v)"

subsection \<open>What the C implementation and the missing headers fix\<close>

datatype OpCode =
    OP_RET | OP_CONSTANT | OP_TRUE | OP_FALSE | OP_NIL
  | OP_NEGATE | OP_INC | OP_DEC
  | OP_NOT | OP_AND | OP_OR | OP_XOR
  | OP_EQUAL | OP_NOT_EQUAL
  | OP_GREATER_EQUAL | OP_GREATER | OP_LESS_EQUAL | OP_LESS
  | OP_ADD | OP_SUB | OP_MULT | OP_DIV

text \<open>
  \<open>opcode_of b\<close> is the case label of the switch in \<^verbatim>\<open>run\<close> whose value is the byte
  \<open>b\<close>, if there is one. The fields \<open>d_add\<close> to \<open>d_ne\<close> are the C operators
  \<^verbatim>\<open>+ - * / > <= < == !=\<close> on \<^verbatim>\<open>double\<close>, and \<open>d_of_int\<close> is the conversion of an \<^verbatim>\<open>int\<close>
  to \<^verbatim>\<open>double\<close>. The operator \<^verbatim>\<open>>=\<close> does not occur in the source.
\<close>

record 'n platform =
  opcode_of :: "8 word \<Rightarrow> OpCode option"
  d_add :: "'n \<Rightarrow> 'n \<Rightarrow> 'n"
  d_sub :: "'n \<Rightarrow> 'n \<Rightarrow> 'n"
  d_mul :: "'n \<Rightarrow> 'n \<Rightarrow> 'n"
  d_div :: "'n \<Rightarrow> 'n \<Rightarrow> 'n"
  d_gt :: "'n \<Rightarrow> 'n \<Rightarrow> bool"
  d_le :: "'n \<Rightarrow> 'n \<Rightarrow> bool"
  d_lt :: "'n \<Rightarrow> 'n \<Rightarrow> bool"
  d_eq :: "'n \<Rightarrow> 'n \<Rightarrow> bool"
  d_ne :: "'n \<Rightarrow> 'n \<Rightarrow> bool"
  d_of_int :: "int \<Rightarrow> 'n"

subsection \<open>The stack\<close>

text \<open>
  \<open>data\<close> is the allocated buffer, one entry per slot; \<open>None\<close> is a slot that was
  never written.
\<close>

record 'n Stack =
  data :: "'n Value option list"
  capacity :: int
  count :: int

definition read_slot :: "'n Value option list \<Rightarrow> int \<Rightarrow> fault + 'n Value" where
  "read_slot d i =
     (if 0 \<le> i \<and> i < int (length d)
      then (case d ! nat i of None \<Rightarrow> Inl Uninitialised | Some v \<Rightarrow> Inr v)
      else Inl OutOfBounds)"

definition write_slot ::
  "'n Value option list \<Rightarrow> int \<Rightarrow> 'n Value \<Rightarrow> fault + 'n Value option list" where
  "write_slot d i v =
     (if 0 \<le> i \<and> i < int (length d) then Inr (d[nat i := Some v]) else Inl OutOfBounds)"

text \<open>\<^verbatim>\<open>malloc(sizeof(Value) * n)\<close>: \<open>n\<close> slots, none of them written.\<close>

definition malloc_values :: "int \<Rightarrow> 'n Value option list" where
  "malloc_values n = replicate (nat n) None"

text \<open>
  Modelled from the spec: the macro \<^verbatim>\<open>GROW_ARRAY\<close> of \<^verbatim>\<open>orion_memory.h\<close>, which is not among
  the sources. The spec's reallocation never fails and preserves the existing
  contents and their order; the slots it adds were never written.
\<close>

definition GROW_ARRAY :: "'n Value option list \<Rightarrow> int \<Rightarrow> 'n Value option list" where
  "GROW_ARRAY d n = take (nat n) d @ replicate (nat n - length d) None"

definition initStack :: "int \<Rightarrow> 'n Stack" where
  "initStack STACK_DEF_CAP =
     \<lparr>data = malloc_values STACK_DEF_CAP, capacity = STACK_DEF_CAP, count = 0\<rparr>"

definition isStackEmpty :: "'n Stack \<Rightarrow> bool" where
  "isStackEmpty s = (count s = 0)"

definition isStackFull :: "'n Stack \<Rightarrow> bool" where
  "isStackFull s = (count s = capacity s)"

definition pushStack :: "'n Stack \<Rightarrow> 'n Value \<Rightarrow> fault + 'n Stack" where
  "pushStack s v =
     (let s1 = (if isStackFull s
                then s\<lparr>capacity := capacity s * 2,
                       data := GROW_ARRAY (data s) (capacity s * 2)\<rparr>
                else s)
      in and_then (write_slot (data s1) (count s1) v)
           (\<lambda>d. Inr (s1\<lparr>data := d, count := count s1 + 1\<rparr>)))"

definition popStack :: "'n Stack \<Rightarrow> fault + ('n Value \<times> 'n Stack)" where
  "popStack s =
     (if isStackEmpty s then Inl AssertionFailed
      else let s1 = s\<lparr>count := count s - 1\<rparr>
           in and_then (read_slot (data s1) (count s1)) (\<lambda>v. Inr (v, s1)))"

definition peekStack :: "'n Stack \<Rightarrow> int \<Rightarrow> fault + 'n Value" where
  "peekStack s distance =
     (if isStackEmpty s then Inl AssertionFailed
      else read_slot (data s) (count s - 1 - distance))"

text \<open>
  \<^verbatim>\<open>peekStackReference\<close> returns the pointer \<^verbatim>\<open>data + (count - 1 - distance)\<close>: here the
  index of the slot. It checks nothing; the pointer is dereferenced by the caller.
\<close>

definition peekStackReference :: "'n Stack \<Rightarrow> int \<Rightarrow> int" where
  "peekStackReference s distance = count s - 1 - distance"

definition resetStack :: "'n Stack \<Rightarrow> 'n Stack" where
  "resetStack s = s\<lparr>count := 0\<rparr>"

subsection \<open>The machine\<close>

record 'n Chunk =
  code :: "8 word list"
  constants :: "'n Value list"
  lines :: "int list"

text \<open>
  An item of output: a fixed text, a number printed with \<^verbatim>\<open>%lf\<close>, or the line
  \<^verbatim>\<open>[line %d] in script\<close>.
\<close>

datatype 'n printed = Text string | Lf 'n | LineInScript int

text \<open>\<open>ip\<close> is the offset of the instruction pointer from \<^verbatim>\<open>chunk->data\<close>.\<close>

record 'n VM =
  chunk :: "'n Chunk"
  ip :: nat
  stack :: "'n Stack"
  stdout :: "'n printed list"
  stderr :: "'n printed list"

datatype InterpretResult = INTERPRET_OK | INTERPRET_COMPILE_ERROR | INTERPRET_RUNTIME_ERROR

text \<open>One pass through the body of the loop either goes on or returns from \<^verbatim>\<open>run\<close>.\<close>

datatype 'n progress = Continue "'n VM" | Return InterpretResult "'n VM"

text \<open>
  \<^verbatim>\<open>initVM\<close> together with the two assignments of \<^verbatim>\<open>interpretChunk\<close> that load a compiled
  chunk (\<^verbatim>\<open>vm->chunk = &chunk; vm->ip = vm->chunk->data\<close>): a fresh stack, the cursor at
  offset 0, nothing printed yet. The compiler that \<^verbatim>\<open>interpretChunk\<close> calls first is not
  part of this development.
\<close>

definition initVM :: "int \<Rightarrow> 'n Chunk \<Rightarrow> 'n VM" where
  "initVM STACK_DEF_CAP c =
     \<lparr>chunk = c, ip = 0, stack = initStack STACK_DEF_CAP, stdout = [], stderr = []\<rparr>"

definition runtimeError :: "'n VM \<Rightarrow> string \<Rightarrow> fault + 'n VM" where
  "runtimeError vm format =
     (let vm1 = vm\<lparr>stderr := stderr vm @ [Text format]\<rparr>;
          instruction = int (ip vm1) - 1
      in if 0 \<le> instruction \<and> instruction < int (length (lines (chunk vm1)))
         then Inr (vm1\<lparr>stderr := stderr vm1 @ [LineInScript (lines (chunk vm1) ! nat instruction)],
                       stack := resetStack (stack vm1)\<rparr>)
         else Inl OutOfBounds)"

text \<open>The two statements \<^verbatim>\<open>runtimeError(vm, format); return INTERPRET_RUNTIME_ERROR;\<close>.\<close>

definition throw :: "'n VM \<Rightarrow> string \<Rightarrow> fault + 'n progress" where
  "throw vm format =
     and_then (runtimeError vm format) (\<lambda>vm'. Inr (Return INTERPRET_RUNTIME_ERROR vm'))"

definition BINARY_OP ::
  "'n VM \<Rightarrow> ('r \<Rightarrow> 'n Value) \<Rightarrow> ('n \<Rightarrow> 'n \<Rightarrow> 'r) \<Rightarrow> fault + 'n progress" where
  "BINARY_OP vm RESULT_VAL op =
     and_then (peekStack (stack vm) 0) (\<lambda>p0.
       if \<not> IS_NUMBER p0 then throw vm ''Operands must be numbers.''
       else and_then (peekStack (stack vm) 1) (\<lambda>p1.
         if \<not> IS_NUMBER p1 then throw vm ''Operands must be numbers.''
         else and_then (popStack (stack vm)) (\<lambda>(vb, s1).
              and_then (AS_NUMBER vb) (\<lambda>b.
              and_then (popStack s1) (\<lambda>(va, s2).
              and_then (AS_NUMBER va) (\<lambda>a.
              and_then (pushStack s2 (RESULT_VAL (op a b))) (\<lambda>s3.
                Inr (Continue (vm\<lparr>stack := s3\<rparr>)))))))))"

definition BINARY_LOGIC_OP :: "'n VM \<Rightarrow> (bool \<Rightarrow> bool \<Rightarrow> bool) \<Rightarrow> fault + 'n progress" where
  "BINARY_LOGIC_OP vm op =
     and_then (popStack (stack vm)) (\<lambda>(b, s1).
     and_then (popStack s1) (\<lambda>(a, s2).
     and_then (pushStack s2 (BOOL_VAL (op (toBool a) (toBool b)))) (\<lambda>s3.
       Inr (Continue (vm\<lparr>stack := s3\<rparr>)))))"

text \<open>
  \<^verbatim>\<open>EQUALITY_OP(op)\<close> applies \<^verbatim>\<open>op\<close> to two \<^verbatim>\<open>bool\<close>s and to two \<^verbatim>\<open>double\<close>s: \<open>bop\<close> and
  \<open>nop\<close>. The branch for different types and the branch for nil do not use \<^verbatim>\<open>op\<close>.
\<close>

definition EQUALITY_OP ::
  "'n VM \<Rightarrow> (bool \<Rightarrow> bool \<Rightarrow> bool) \<Rightarrow> ('n \<Rightarrow> 'n \<Rightarrow> bool) \<Rightarrow> fault + 'n progress" where
  "EQUALITY_OP vm bop nop =
     and_then (popStack (stack vm)) (\<lambda>(b, s1).
     and_then (popStack s1) (\<lambda>(a, s2).
     and_then
       (if type_of a \<noteq> type_of b then pushStack s2 (BOOL_VAL False)
        else (case type_of a of
                VAL_NIL \<Rightarrow> pushStack s2 (BOOL_VAL True)
              | VAL_BOOL \<Rightarrow>
                  and_then (AS_BOOL a) (\<lambda>x. and_then (AS_BOOL b) (\<lambda>y.
                    pushStack s2 (BOOL_VAL (bop x y))))
              | VAL_NUMBER \<Rightarrow>
                  and_then (AS_NUMBER a) (\<lambda>x. and_then (AS_NUMBER b) (\<lambda>y.
                    pushStack s2 (BOOL_VAL (nop x y))))))
       (\<lambda>s3. Inr (Continue (vm\<lparr>stack := s3\<rparr>)))))"

definition THROW_IF_NAN ::
  "'n VM \<Rightarrow> 'n Value \<Rightarrow> fault + 'n progress \<Rightarrow> fault + 'n progress" where
  "THROW_IF_NAN vm val rest =
     (if \<not> IS_NUMBER val then throw vm ''Operand must be a number.'' else rest)"

text \<open>
  The body shared by the cases \<^verbatim>\<open>OP_NEGATE\<close>, \<^verbatim>\<open>OP_INC\<close> and \<^verbatim>\<open>OP_DEC\<close>, which differ in the
  last statement only: take the pointer to the top slot from \<^verbatim>\<open>peekStackReference\<close>,
  read the slot for \<^verbatim>\<open>THROW_IF_NAN\<close>, then assign the payload; \<open>f\<close> is the assignment
  (\<^verbatim>\<open>*= -1\<close>, \<^verbatim>\<open>++\<close>, \<^verbatim>\<open>--\<close>).
\<close>

definition update_top :: "'n VM \<Rightarrow> ('n \<Rightarrow> 'n) \<Rightarrow> fault + 'n progress" where
  "update_top vm f =
     (let val = peekStackReference (stack vm) 0
      in and_then (read_slot (data (stack vm)) val) (\<lambda>v.
           THROW_IF_NAN vm v
             (and_then (AS_NUMBER v) (\<lambda>x.
              and_then (write_slot (data (stack vm)) val (NUMBER_VAL (f x))) (\<lambda>d.
                Inr (Continue (vm\<lparr>stack := (stack vm)\<lparr>data := d\<rparr>\<rparr>)))))))"

fun print_value :: "'n Value \<Rightarrow> 'n printed" where
  "print_value (BOOL_VAL b) = Text (if b then ''true'' else ''false'')"
| "print_value NIL_VAL = Text ''nil''"
| "print_value (NUMBER_VAL x) = Lf x"

definition fetch :: "8 word list \<Rightarrow> nat \<Rightarrow> fault + 8 word" where
  "fetch bs i = (if i < length bs then Inr (bs ! i) else Inl OutOfBounds)"

definition constant_at :: "'n Value list \<Rightarrow> 8 word \<Rightarrow> fault + 'n Value" where
  "constant_at cs b = (if unat b < length cs then Inr (cs ! unat b) else Inl OutOfBounds)"

text \<open>The cases of the switch; \<open>vm\<close> is the machine after \<^verbatim>\<open>vm->ip++\<close>.\<close>

fun dispatch :: "'n platform \<Rightarrow> 'n VM \<Rightarrow> OpCode \<Rightarrow> fault + 'n progress" where
  "dispatch P vm OP_RET =
     and_then (popStack (stack vm)) (\<lambda>(ret, s1).
       Inr (Return INTERPRET_OK
              (vm\<lparr>stack := s1, stdout := stdout vm @ [print_value ret]\<rparr>)))"
| "dispatch P vm OP_CONSTANT =
     and_then (fetch (code (chunk vm)) (ip vm)) (\<lambda>b.
     and_then (constant_at (constants (chunk vm)) b) (\<lambda>constant.
       THROW_IF_NAN vm constant
         (let vm1 = vm\<lparr>ip := ip vm + 1\<rparr>
          in and_then (pushStack (stack vm1) constant) (\<lambda>s1.
               Inr (Continue (vm1\<lparr>stack := s1\<rparr>))))))"
| "dispatch P vm OP_TRUE =
     and_then (pushStack (stack vm) (BOOL_VAL True)) (\<lambda>s1. Inr (Continue (vm\<lparr>stack := s1\<rparr>)))"
| "dispatch P vm OP_FALSE =
     and_then (pushStack (stack vm) (BOOL_VAL False)) (\<lambda>s1. Inr (Continue (vm\<lparr>stack := s1\<rparr>)))"
| "dispatch P vm OP_NIL =
     and_then (pushStack (stack vm) NIL_VAL) (\<lambda>s1. Inr (Continue (vm\<lparr>stack := s1\<rparr>)))"
| "dispatch P vm OP_NEGATE = update_top vm (\<lambda>x. d_mul P x (d_of_int P (- 1)))"
| "dispatch P vm OP_INC = update_top vm (\<lambda>x. d_add P x (d_of_int P 1))"
| "dispatch P vm OP_DEC = update_top vm (\<lambda>x. d_sub P x (d_of_int P 1))"
| "dispatch P vm OP_NOT =
     and_then (popStack (stack vm)) (\<lambda>(v, s1).
     and_then (pushStack s1 (BOOL_VAL (isFalseyValue v))) (\<lambda>s2.
       Inr (Continue (vm\<lparr>stack := s2\<rparr>))))"
| "dispatch P vm OP_AND = BINARY_LOGIC_OP vm (\<and>)"
| "dispatch P vm OP_OR = BINARY_LOGIC_OP vm (\<or>)"
| "dispatch P vm OP_XOR = BINARY_LOGIC_OP vm (\<noteq>)"
| "dispatch P vm OP_EQUAL = EQUALITY_OP vm (=) (d_eq P)"
| "dispatch P vm OP_NOT_EQUAL = EQUALITY_OP vm (\<noteq>) (d_ne P)"
| "dispatch P vm OP_GREATER_EQUAL = BINARY_OP vm BOOL_VAL (d_gt P)"
| "dispatch P vm OP_GREATER = BINARY_OP vm BOOL_VAL (d_gt P)"
| "dispatch P vm OP_LESS_EQUAL = BINARY_OP vm BOOL_VAL (d_le P)"
| "dispatch P vm OP_LESS = BINARY_OP vm BOOL_VAL (d_lt P)"
| "dispatch P vm OP_ADD = BINARY_OP vm NUMBER_VAL (d_add P)"
| "dispatch P vm OP_SUB = BINARY_OP vm NUMBER_VAL (d_sub P)"
| "dispatch P vm OP_MULT = BINARY_OP vm NUMBER_VAL (d_mul P)"
| "dispatch P vm OP_DIV = BINARY_OP vm NUMBER_VAL (d_div P)"

text \<open>
  The body of the loop: read the byte at the cursor, advance the cursor, switch. The
  switch has no default: a byte that matches no case label falls out of it and the
  loop goes on.
\<close>

definition step :: "'n platform \<Rightarrow> 'n VM \<Rightarrow> fault + 'n progress" where
  "step P vm =
     and_then (fetch (code (chunk vm)) (ip vm)) (\<lambda>instruction.
       let vm1 = vm\<lparr>ip := ip vm + 1\<rparr>
       in (case opcode_of P instruction of
             None \<Rightarrow> Inr (Continue vm1)
           | Some c \<Rightarrow> dispatch P vm1 c))"

text \<open>
  \<^verbatim>\<open>run\<close>: the loop \<^verbatim>\<open>for (;;)\<close>. Every pass moves the cursor forward and a fetch
  beyond the code is a fault, so the loop ends on every input.
\<close>

function run :: "'n platform \<Rightarrow> 'n VM \<Rightarrow> fault + (InterpretResult \<times> 'n VM)" where
  "run P vm =
     (case step P vm of
        Inl f \<Rightarrow> Inl f
      | Inr (Continue vm') \<Rightarrow> run P vm'
      | Inr (Return r vm') \<Rightarrow> Inr (r, vm'))"
  by pat_completeness auto

subsection \<open>Vocabulary of the statements\<close>

text \<open>The live part of the buffer, bottom first: the slots below \<open>count\<close>.\<close>

definition contents :: "'n Stack \<Rightarrow> 'n Value option list" where
  "contents s = take (nat (count s)) (data s)"

text \<open>
  The invariant of the stack: \<open>0 \<le> count \<le> capacity\<close>, the capacity is positive and is
  the number of slots of the buffer, and every live slot was written.
\<close>

definition stack_ok :: "'n Stack \<Rightarrow> bool" where
  "stack_ok s =
     (0 \<le> count s \<and> count s \<le> capacity s \<and> 0 < capacity s \<and>
      int (length (data s)) = capacity s \<and> list_all (\<lambda>x. x \<noteq> None) (contents s))"

text \<open>The byte at the cursor is the opcode \<open>c\<close>.\<close>

definition at_opcode :: "'n platform \<Rightarrow> 'n VM \<Rightarrow> OpCode \<Rightarrow> bool" where
  "at_opcode P vm c =
     (ip vm < length (code (chunk vm)) \<and> opcode_of P (code (chunk vm) ! ip vm) = Some c)"

text \<open>Pushing a list of values, first to last, and popping \<open>n\<close> values, top first.\<close>

fun push_all :: "'n Stack \<Rightarrow> 'n Value list \<Rightarrow> fault + 'n Stack" where
  "push_all s [] = Inr s"
| "push_all s (v # vs) = and_then (pushStack s v) (\<lambda>s1. push_all s1 vs)"

fun pop_n :: "'n Stack \<Rightarrow> nat \<Rightarrow> fault + ('n Value list \<times> 'n Stack)" where
  "pop_n s 0 = Inr ([], s)"
| "pop_n s (Suc n) =
     and_then (popStack s) (\<lambda>(v, s1).
     and_then (pop_n s1 n) (\<lambda>(vs, s2). Inr (v # vs, s2)))"

text \<open>\<open>reaches P vm vm'\<close>: the loop gets from \<open>vm\<close> to \<open>vm'\<close> by passes that go on.\<close>

inductive reaches :: "'n platform \<Rightarrow> 'n VM \<Rightarrow> 'n VM \<Rightarrow> bool" for P :: "'n platform" where
  reaches_here: "reaches P vm vm"
| reaches_pass: "step P vm = Inr (Continue vm1) \<Longrightarrow> reaches P vm1 vm2 \<Longrightarrow> reaches P vm vm2"

text \<open>\<open>raised vm vm'\<close>: one of the two diagnostics of \<^verbatim>\<open>run\<close>, reported on \<open>vm\<close>, gives \<open>vm'\<close>.\<close>

definition raised :: "'n VM \<Rightarrow> 'n VM \<Rightarrow> bool" where
  "raised vm vm' =
     (throw vm ''Operand must be a number.'' = Inr (Return INTERPRET_RUNTIME_ERROR vm')
      \<or> throw vm ''Operands must be numbers.'' = Inr (Return INTERPRET_RUNTIME_ERROR vm'))"

text \<open>
  A platform for concrete examples: the opcodes numbered from 0 in the order of the
  cases of the switch, and exact arithmetic on real numbers for the payloads. No
  example divides, so the value that HOL gives to a division by zero plays no part.
\<close>

definition sample_opcode_of :: "8 word \<Rightarrow> OpCode option" where
  "sample_opcode_of b =
     (if unat b < 22
      then Some ([OP_RET, OP_CONSTANT, OP_TRUE, OP_FALSE, OP_NIL, OP_NEGATE, OP_INC, OP_DEC,
                  OP_NOT, OP_AND, OP_OR, OP_XOR, OP_EQUAL, OP_NOT_EQUAL, OP_GREATER_EQUAL,
                  OP_GREATER, OP_LESS_EQUAL, OP_LESS, OP_ADD, OP_SUB, OP_MULT, OP_DIV] ! unat b)
      else None)"

definition real_platform :: "real platform" where
  "real_platform =
     \<lparr>opcode_of = sample_opcode_of,
      d_add = (+), d_sub = (-), d_mul = (*), d_div = (/),
      d_gt = (\<lambda>a b. a > b), d_le = (\<le>), d_lt = (<), d_eq = (=), d_ne = (\<noteq>),
      d_of_int = of_int\<rparr>"

section \<open>Termination of the loop\<close>

lemma and_then_Inr: "and_then r k = Inr y \<longleftrightarrow> (\<exists>x. r = Inr x \<and> k x = Inr y)"
  by (cases r) (simp_all add: and_then_def)

lemma and_then_simps [simp]:
  "and_then (Inl f) k = Inl f"
  "and_then (Inr x) k = k x"
  by (simp_all add: and_then_def)

lemma throw_Continue: "throw vm m \<noteq> Inr (Continue vm')"
  by (auto simp: throw_def and_then_Inr)

lemma BINARY_OP_pos:
  "BINARY_OP vm R op = Inr (Continue vm') \<Longrightarrow>
     chunk vm' = chunk vm \<and> ip vm' = ip vm \<and> stdout vm' = stdout vm \<and> stderr vm' = stderr vm"
  by (auto simp: BINARY_OP_def and_then_Inr throw_Continue split: if_splits)

lemma BINARY_LOGIC_OP_pos:
  "BINARY_LOGIC_OP vm op = Inr (Continue vm') \<Longrightarrow>
     chunk vm' = chunk vm \<and> ip vm' = ip vm \<and> stdout vm' = stdout vm \<and> stderr vm' = stderr vm"
  by (auto simp: BINARY_LOGIC_OP_def and_then_Inr)

lemma EQUALITY_OP_pos:
  "EQUALITY_OP vm bop nop = Inr (Continue vm') \<Longrightarrow>
     chunk vm' = chunk vm \<and> ip vm' = ip vm \<and> stdout vm' = stdout vm \<and> stderr vm' = stderr vm"
  by (auto simp: EQUALITY_OP_def and_then_Inr)

lemma update_top_pos:
  "update_top vm f = Inr (Continue vm') \<Longrightarrow>
     chunk vm' = chunk vm \<and> ip vm' = ip vm \<and> stdout vm' = stdout vm \<and> stderr vm' = stderr vm"
  by (auto simp: update_top_def THROW_IF_NAN_def Let_def and_then_Inr throw_Continue
           split: if_splits)

lemma dispatch_pos:
  "dispatch P vm c = Inr (Continue vm') \<Longrightarrow>
     chunk vm' = chunk vm \<and> ip vm \<le> ip vm' \<and> stdout vm' = stdout vm \<and> stderr vm' = stderr vm"
  by (cases c)
     (auto simp: and_then_Inr THROW_IF_NAN_def Let_def throw_Continue
           dest: BINARY_OP_pos BINARY_LOGIC_OP_pos EQUALITY_OP_pos update_top_pos
           split: if_splits)

lemma step_pos:
  "step P vm = Inr (Continue vm') \<Longrightarrow>
     chunk vm' = chunk vm \<and> ip vm < ip vm' \<and> ip vm < length (code (chunk vm))
     \<and> stdout vm' = stdout vm \<and> stderr vm' = stderr vm"
  by (auto simp: step_def Let_def and_then_Inr fetch_def
           dest: dispatch_pos split: if_splits option.splits)

termination run
  by (relation "measure (\<lambda>(P, vm). length (code (chunk vm)) - ip vm)")
     (auto dest!: step_pos)

declare run.simps [simp del]

section \<open>The stack operations on a well-formed stack\<close>

lemma stack_ok_length: "stack_ok s \<Longrightarrow> length (contents s) = nat (count s)"
  by (auto simp: stack_ok_def contents_def)

lemma pushStack_ok:
  assumes "stack_ok s"
  shows "\<exists>s'. pushStack s v = Inr s' \<and> stack_ok s' \<and> contents s' = contents s @ [Some v]
            \<and> count s' = count s + 1
            \<and> capacity s' = (if count s = capacity s then capacity s * 2 else capacity s)"
proof (cases "count s = capacity s")
  case True
  let ?d = "(data s @ replicate (nat (capacity s)) None)[nat (count s) := Some v]"
  let ?s' = "\<lparr>data = ?d, capacity = capacity s * 2, count = count s + 1\<rparr>"
  from assms True have len: "length (data s) = nat (capacity s)" "0 < capacity s"
    by (auto simp: stack_ok_def)
  then have grow: "GROW_ARRAY (data s) (capacity s * 2) = data s @ replicate (nat (capacity s)) None"
    by (simp add: GROW_ARRAY_def nat_mult_distrib)
  have push: "pushStack s v = Inr ?s'"
    using True len by (simp add: pushStack_def isStackFull_def grow write_slot_def)
  have cont: "contents ?s' = contents s @ [Some v]"
    using True len by (simp add: contents_def nat_add_distrib take_Suc_conv_app_nth nth_append list_update_append)
  have "stack_ok ?s'"
    using assms True len cont by (simp add: stack_ok_def)
  with push cont True show ?thesis by auto
next
  case False
  let ?s' = "s\<lparr>data := (data s)[nat (count s) := Some v], count := count s + 1\<rparr>"
  from assms False have len: "int (length (data s)) = capacity s" "0 \<le> count s" "count s < capacity s"
    by (auto simp: stack_ok_def)
  have push: "pushStack s v = Inr ?s'"
    using False len by (simp add: pushStack_def isStackFull_def write_slot_def)
  have cont: "contents ?s' = contents s @ [Some v]"
    using len by (simp add: contents_def nat_add_distrib take_Suc_conv_app_nth)
  have "stack_ok ?s'"
    using assms False len cont by (simp add: stack_ok_def)
  with push cont False show ?thesis by auto
qed

lemma popStack_ok:
  assumes "stack_ok s" and "contents s = xs @ [Some v]"
  shows "popStack s = Inr (v, s\<lparr>count := count s - 1\<rparr>)
         \<and> stack_ok (s\<lparr>count := count s - 1\<rparr>)
         \<and> contents (s\<lparr>count := count s - 1\<rparr>) = xs"
proof -
  have len: "nat (count s) = Suc (length xs)"
    using stack_ok_length [OF assms(1)] assms(2) by simp
  then have pos: "0 < count s" by linarith
  have n: "nat (count s - 1) = length xs" using len by linarith
  have inb: "length xs < length (data s)"
    using assms(1) len by (auto simp: stack_ok_def)
  have "data s ! length xs = contents s ! length xs"
    using len by (simp add: contents_def)
  then have top: "data s ! length xs = Some v" by (simp add: assms(2))
  have c: "contents (s\<lparr>count := count s - 1\<rparr>) = xs"
  proof -
    have "take (length xs) (data s) = take (length xs) (take (nat (count s)) (data s))"
      using len by simp
    also have "\<dots> = xs" using assms(2) by (simp add: contents_def)
    finally show ?thesis by (simp add: contents_def n)
  qed
  have p: "popStack s = Inr (v, s\<lparr>count := count s - 1\<rparr>)"
    using pos inb top n by (simp add: popStack_def isStackEmpty_def read_slot_def Let_def)
  have "list_all (\<lambda>x. x \<noteq> None) xs"
    using assms by (simp add: stack_ok_def)
  then have "stack_ok (s\<lparr>count := count s - 1\<rparr>)"
    using assms(1) pos c by (simp add: stack_ok_def)
  with p c show ?thesis by simp
qed

lemma peekStack_top:
  assumes "stack_ok s" and "contents s = xs @ [Some v]"
  shows "peekStack s 0 = Inr v"
proof -
  have len: "nat (count s) = Suc (length xs)"
    using stack_ok_length [OF assms(1)] assms(2) by simp
  then have pos: "0 < count s" by linarith
  have n: "nat (count s - 1) = length xs" using len by linarith
  have inb: "length xs < length (data s)"
    using assms(1) len by (auto simp: stack_ok_def)
  have "data s ! length xs = contents s ! length xs"
    using len by (simp add: contents_def)
  then have top: "data s ! length xs = Some v" by (simp add: assms(2))
  show ?thesis
    using pos inb top n by (simp add: peekStack_def isStackEmpty_def read_slot_def)
qed

lemma peekStack_second:
  assumes "stack_ok s" and "contents s = xs @ [Some a, Some b]"
  shows "peekStack s 1 = Inr a"
proof -
  have len: "nat (count s) = Suc (Suc (length xs))"
    using stack_ok_length [OF assms(1)] assms(2) by simp
  then have pos: "1 < count s" by linarith
  have n: "nat (count s - 1 - 1) = length xs" using len by linarith
  have inb: "length xs < length (data s)"
    using assms(1) len by (auto simp: stack_ok_def)
  have "data s ! length xs = contents s ! length xs"
    using len by (simp add: contents_def)
  then have top: "data s ! length xs = Some a" by (simp add: assms(2))
  show ?thesis
    using pos inb top n by (simp add: peekStack_def isStackEmpty_def read_slot_def)
qed

lemma push_all_ok:
  "stack_ok s \<Longrightarrow>
     \<exists>s1. push_all s vs = Inr s1 \<and> stack_ok s1 \<and> contents s1 = contents s @ map Some vs
          \<and> capacity s \<le> capacity s1"
proof (induction vs arbitrary: s)
  case Nil
  then show ?case by simp
next
  case (Cons v vs)
  from pushStack_ok [OF Cons.prems, of v] obtain s' where
    s': "pushStack s v = Inr s'" "stack_ok s'" "contents s' = contents s @ [Some v]"
        "capacity s' = (if count s = capacity s then capacity s * 2 else capacity s)"
    by blast
  from Cons.prems have "0 < capacity s" by (simp add: stack_ok_def)
  with s'(4) have mono: "capacity s \<le> capacity s'" by (simp split: if_splits)
  from Cons.IH [OF s'(2)] obtain s1 where
    s1: "push_all s' vs = Inr s1" "stack_ok s1" "contents s1 = contents s' @ map Some vs"
        "capacity s' \<le> capacity s1"
    by blast
  show ?case using s'(1,3) s1 mono by simp
qed

lemma pop_n_ok:
  "stack_ok s1 \<Longrightarrow> contents s1 = xs @ map Some vs \<Longrightarrow>
     \<exists>s2. pop_n s1 (length vs) = Inr (rev vs, s2) \<and> stack_ok s2 \<and> contents s2 = xs
          \<and> capacity s2 = capacity s1 \<and> data s2 = data s1"
proof (induction vs arbitrary: s1 rule: rev_induct)
  case Nil
  then show ?case by simp
next
  case (snoc v vs)
  from snoc.prems(2) have c: "contents s1 = (xs @ map Some vs) @ [Some v]" by simp
  let ?s = "s1\<lparr>count := count s1 - 1\<rparr>"
  from popStack_ok [OF snoc.prems(1) c]
  have p: "popStack s1 = Inr (v, ?s)" "stack_ok ?s" "contents ?s = xs @ map Some vs"
    by simp_all
  from snoc.IH [OF p(2,3)] obtain s2 where
    s2: "pop_n ?s (length vs) = Inr (rev vs, s2)" "stack_ok s2" "contents s2 = xs"
        "capacity s2 = capacity ?s" "data s2 = data ?s"
    by blast
  show ?case using p(1) s2 by simp
qed

section \<open>Claims about the stack\<close>

text \<open>
  Claim C9, as amended. For every stack that satisfies the invariant \<open>stack_ok\<close>
  (\<open>0 \<le> count \<le> capacity\<close> with a positive capacity that is the size of the buffer),
  \<open>pushStack\<close> returns a stack: a full stack gets twice the capacity, the entries
  below keep their values and order, and the value is appended. Pushing the values
  \<open>vs\<close> and then popping as many returns them last pushed first and leaves the
  contents and the count as they were before the pushes; the capacity after the
  pushes is at least the former one and the pops do not change it.
\<close>

theorem C9_push_grows_and_pops_return:
  assumes "stack_ok s"
  shows "(\<exists>s'. pushStack s v = Inr s' \<and> stack_ok s' \<and> contents s' = contents s @ [Some v]
               \<and> capacity s' = (if isStackFull s then capacity s * 2 else capacity s))
       \<and> (\<exists>s1 s2. push_all s vs = Inr s1 \<and> contents s1 = contents s @ map Some vs
               \<and> pop_n s1 (length vs) = Inr (rev vs, s2)
               \<and> contents s2 = contents s \<and> count s2 = count s
               \<and> capacity s \<le> capacity s1 \<and> capacity s2 = capacity s1)"
proof
  from pushStack_ok [OF assms, of v]
  show "\<exists>s'. pushStack s v = Inr s' \<and> stack_ok s' \<and> contents s' = contents s @ [Some v]
             \<and> capacity s' = (if isStackFull s then capacity s * 2 else capacity s)"
    by (auto simp: isStackFull_def)
next
  from push_all_ok [OF assms, of vs] obtain s1 where
    s1: "push_all s vs = Inr s1" "stack_ok s1" "contents s1 = contents s @ map Some vs"
        "capacity s \<le> capacity s1"
    by blast
  from pop_n_ok [OF s1(2,3)] obtain s2 where
    s2: "pop_n s1 (length vs) = Inr (rev vs, s2)" "stack_ok s2" "contents s2 = contents s"
        "capacity s2 = capacity s1"
    by blast
  have "nat (count s2) = nat (count s)"
    using stack_ok_length [OF s2(2)] stack_ok_length [OF assms] s2(3) by simp
  moreover have "0 \<le> count s2" "0 \<le> count s"
    using s2(2) assms by (simp_all add: stack_ok_def)
  ultimately have "count s2 = count s" by linarith
  with s1 s2 show "\<exists>s1 s2. push_all s vs = Inr s1 \<and> contents s1 = contents s @ map Some vs
               \<and> pop_n s1 (length vs) = Inr (rev vs, s2)
               \<and> contents s2 = contents s \<and> count s2 = count s
               \<and> capacity s \<le> capacity s1 \<and> capacity s2 = capacity s1"
    by blast
qed

text \<open>
  The theorem at a stack of capacity 1 and three values, so that the buffer is
  reallocated twice.
\<close>

theorem C9_witness:
  "stack_ok (initStack 1 :: real Stack)
   \<and> (\<exists>s1 s2. push_all (initStack 1) [NUMBER_VAL 5, BOOL_VAL True, NIL_VAL] = Inr s1
        \<and> contents s1 = contents (initStack 1 :: real Stack)
                           @ map Some [NUMBER_VAL 5, BOOL_VAL True, NIL_VAL]
        \<and> pop_n s1 (length [NUMBER_VAL 5, BOOL_VAL True, NIL_VAL :: real Value])
            = Inr (rev [NUMBER_VAL 5, BOOL_VAL True, NIL_VAL], s2)
        \<and> contents s2 = contents (initStack 1 :: real Stack)
        \<and> count s2 = count (initStack 1 :: real Stack)
        \<and> capacity (initStack 1 :: real Stack) \<le> capacity s1 \<and> capacity s2 = capacity s1)"
proof -
  have ok: "stack_ok (initStack 1 :: real Stack)"
    by (simp add: stack_ok_def initStack_def malloc_values_def contents_def)
  from C9_push_grows_and_pops_return
         [OF ok, of NIL_VAL "[NUMBER_VAL 5, BOOL_VAL True, NIL_VAL]"]
  show ?thesis using ok by blast
qed

text \<open>
  Claim C9 as stated, for every stack with \<open>0 \<le> count \<le> capacity\<close>, fails at the stack
  that \<open>initStack\<close> builds for a default capacity of 0: it is full, twice its capacity
  is still 0, and the write to slot 0 is outside the buffer.
\<close>

theorem C9_counterexample:
  "(0 \<le> count (initStack 0 :: real Stack)
    \<and> count (initStack 0 :: real Stack) \<le> capacity (initStack 0 :: real Stack))
   \<and> pushStack (initStack 0 :: real Stack) (NUMBER_VAL 5) = Inl OutOfBounds"
  by (simp add: initStack_def malloc_values_def pushStack_def isStackFull_def GROW_ARRAY_def
        write_slot_def)

section \<open>One pass of the loop\<close>

lemma step_at: "at_opcode P vm c \<Longrightarrow> step P vm = dispatch P (vm\<lparr>ip := ip vm + 1\<rparr>) c"
  by (simp add: at_opcode_def step_def fetch_def Let_def)

lemma run_Continue: "step P vm = Inr (Continue vm1) \<Longrightarrow> run P vm = run P vm1"
  by (subst run.simps) simp

lemma run_Return: "step P vm = Inr (Return r vm1) \<Longrightarrow> run P vm = Inr (r, vm1)"
  by (subst run.simps) simp

lemma run_fault: "step P vm = Inl f \<Longrightarrow> run P vm = Inl f"
  by (subst run.simps) simp

lemma two_pushes:
  assumes "stack_ok s0" "pushStack s0 a = Inr s1" "pushStack s1 b = Inr s2"
  shows "stack_ok s2 \<and> contents s2 = contents s0 @ [Some a, Some b]"
proof -
  from pushStack_ok [OF assms(1), of a] assms(2)
  have s1: "stack_ok s1" "contents s1 = contents s0 @ [Some a]" by auto
  from pushStack_ok [OF s1(1), of b] assms(3)
  have "stack_ok s2" "contents s2 = contents s1 @ [Some b]" by auto
  with s1 show ?thesis by simp
qed

lemma count_of_contents:
  "stack_ok s \<Longrightarrow> count s = int (length (contents s))"
  using stack_ok_length [of s] by (simp add: stack_ok_def)

lemma BINARY_OP_numbers:
  assumes ok: "stack_ok (stack vm)"
    and c: "contents (stack vm) = xs @ [Some (NUMBER_VAL a), Some (NUMBER_VAL b)]"
  shows "\<exists>s3. BINARY_OP vm R op = Inr (Continue (vm\<lparr>stack := s3\<rparr>))
            \<and> stack_ok s3 \<and> contents s3 = xs @ [Some (R (op a b))]
            \<and> capacity s3 = capacity (stack vm)"
proof -
  let ?s = "stack vm"
  let ?s1 = "?s\<lparr>count := count ?s - 1\<rparr>"
  let ?s2 = "?s1\<lparr>count := count ?s1 - 1\<rparr>"
  from c have c': "contents ?s = (xs @ [Some (NUMBER_VAL a)]) @ [Some (NUMBER_VAL b)]" by simp
  have p0: "peekStack ?s 0 = Inr (NUMBER_VAL b)" by (rule peekStack_top [OF ok c'])
  have p1: "peekStack ?s 1 = Inr (NUMBER_VAL a)" by (rule peekStack_second [OF ok c])
  from popStack_ok [OF ok c']
  have pop1: "popStack ?s = Inr (NUMBER_VAL b, ?s1)" "stack_ok ?s1"
    "contents ?s1 = xs @ [Some (NUMBER_VAL a)]" by simp_all
  from popStack_ok [OF pop1(2,3)]
  have pop2: "popStack ?s1 = Inr (NUMBER_VAL a, ?s2)" "stack_ok ?s2" "contents ?s2 = xs"
    by simp_all
  from pushStack_ok [OF pop2(2), of "R (op a b)"] obtain s3 where
    s3: "pushStack ?s2 (R (op a b)) = Inr s3" "stack_ok s3"
        "contents s3 = contents ?s2 @ [Some (R (op a b))]"
        "capacity s3 = (if count ?s2 = capacity ?s2 then capacity ?s2 * 2 else capacity ?s2)"
    by blast
  have "count ?s = int (length xs) + 2" using count_of_contents [OF ok] c by simp
  moreover have "count ?s \<le> capacity ?s" using ok by (simp add: stack_ok_def)
  ultimately have cap: "capacity s3 = capacity ?s" using s3(4) by simp
  have "BINARY_OP vm R op = Inr (Continue (vm\<lparr>stack := s3\<rparr>))"
    using p0 p1 pop1(1) pop2(1) s3(1) by (simp add: BINARY_OP_def IS_NUMBER_def)
  with s3(2,3) pop2(3) cap show ?thesis by auto
qed

lemma EQUALITY_OP_values:
  assumes ok: "stack_ok (stack vm)"
    and c: "contents (stack vm) = xs @ [Some a, Some b]"
  shows "\<exists>s3. EQUALITY_OP vm bop nop = Inr (Continue (vm\<lparr>stack := s3\<rparr>))
            \<and> stack_ok s3
            \<and> contents s3 = xs @ [Some (BOOL_VAL
                 (case (a, b) of
                    (NIL_VAL, NIL_VAL) \<Rightarrow> True
                  | (BOOL_VAL x, BOOL_VAL y) \<Rightarrow> bop x y
                  | (NUMBER_VAL x, NUMBER_VAL y) \<Rightarrow> nop x y
                  | _ \<Rightarrow> False))]"
proof -
  let ?s = "stack vm"
  let ?s1 = "?s\<lparr>count := count ?s - 1\<rparr>"
  let ?s2 = "?s1\<lparr>count := count ?s1 - 1\<rparr>"
  let ?r = "BOOL_VAL (case (a, b) of
                    (NIL_VAL, NIL_VAL) \<Rightarrow> True
                  | (BOOL_VAL x, BOOL_VAL y) \<Rightarrow> bop x y
                  | (NUMBER_VAL x, NUMBER_VAL y) \<Rightarrow> nop x y
                  | _ \<Rightarrow> False)"
  from c have c': "contents ?s = (xs @ [Some a]) @ [Some b]" by simp
  from popStack_ok [OF ok c']
  have pop1: "popStack ?s = Inr (b, ?s1)" "stack_ok ?s1" "contents ?s1 = xs @ [Some a]"
    by simp_all
  from popStack_ok [OF pop1(2,3)]
  have pop2: "popStack ?s1 = Inr (a, ?s2)" "stack_ok ?s2" "contents ?s2 = xs"
    by simp_all
  from pushStack_ok [OF pop2(2), of ?r] obtain s3 where
    s3: "pushStack ?s2 ?r = Inr s3" "stack_ok s3" "contents s3 = contents ?s2 @ [Some ?r]"
    by blast
  have "EQUALITY_OP vm bop nop = Inr (Continue (vm\<lparr>stack := s3\<rparr>))"
    using pop1(1) pop2(1) s3(1)
    by (cases a; cases b) (simp_all add: EQUALITY_OP_def)
  with s3(2,3) pop2(3) show ?thesis by auto
qed

section \<open>Concrete stacks for the examples\<close>

lemma initStack_2: "initStack 2 = \<lparr>data = [None, None], capacity = 2, count = 0\<rparr>"
  by (simp add: initStack_def malloc_values_def eval_nat_numeral)

lemma stack_ok_init2: "stack_ok (initStack 2)"
  by (simp add: initStack_2 stack_ok_def contents_def)

lemma contents_init2: "contents (initStack 2) = []"
  by (simp add: initStack_2 contents_def)

lemma push_init2:
  "pushStack (initStack 2) a = Inr \<lparr>data = [Some a, None], capacity = 2, count = 1\<rparr>"
  by (simp add: initStack_2 pushStack_def isStackFull_def write_slot_def)

lemma push_push_init2:
  "pushStack \<lparr>data = [Some a, None], capacity = 2, count = 1\<rparr> b
     = Inr \<lparr>data = [Some a, Some b], capacity = 2, count = 2\<rparr>"
  by (simp add: pushStack_def isStackFull_def write_slot_def)

section \<open>Claims about the binary opcodes\<close>

lemma binary_case:
  assumes "stack_ok s0" "pushStack s0 (NUMBER_VAL a) = Inr s1"
    "pushStack s1 (NUMBER_VAL b) = Inr s2" "stack vm = s2" "at_opcode P vm c"
    "dispatch P (vm\<lparr>ip := ip vm + 1\<rparr>) c = BINARY_OP (vm\<lparr>ip := ip vm + 1\<rparr>) R op"
  shows "\<exists>s3. step P vm = Inr (Continue (vm\<lparr>ip := ip vm + 1, stack := s3\<rparr>))
            \<and> contents s3 = contents s0 @ [Some (R (op a b))]"
proof -
  let ?vm = "vm\<lparr>ip := ip vm + 1\<rparr>"
  from two_pushes [OF assms(1-3)] assms(4)
  have "stack_ok (stack ?vm)"
    "contents (stack ?vm) = contents s0 @ [Some (NUMBER_VAL a), Some (NUMBER_VAL b)]"
    by simp_all
  from BINARY_OP_numbers [OF this, of R op] step_at [OF assms(5)] assms(6)
  show ?thesis by auto
qed

text \<open>
  Claim C1, as the code has it. With numbers \<open>a\<close> pushed first and \<open>b\<close> second, each
  of the four comparison opcodes pops both and pushes one boolean on what was below
  them: Greater pushes \<open>a > b\<close>, Less \<open>a < b\<close> and Less-or-equal \<open>a <= b\<close>, as claimed;
  Greater-or-equal pushes \<open>a > b\<close> as well, the operator its case passes to
  \<^verbatim>\<open>BINARY_OP\<close>, not \<open>a >= b\<close>.
\<close>

theorem C1_comparisons:
  assumes "stack_ok s0"
    and "pushStack s0 (NUMBER_VAL a) = Inr s1"
    and "pushStack s1 (NUMBER_VAL b) = Inr s2"
    and "stack vm = s2"
    and "at_opcode P vm c"
    and "c \<in> {OP_GREATER_EQUAL, OP_GREATER, OP_LESS, OP_LESS_EQUAL}"
  shows "\<exists>s3. step P vm = Inr (Continue (vm\<lparr>ip := ip vm + 1, stack := s3\<rparr>))
            \<and> contents s3 = contents s0 @
                 [Some (BOOL_VAL (case c of
                                    OP_GREATER_EQUAL \<Rightarrow> d_gt P a b
                                  | OP_GREATER \<Rightarrow> d_gt P a b
                                  | OP_LESS \<Rightarrow> d_lt P a b
                                  | _ \<Rightarrow> d_le P a b))]"
proof -
  note b = binary_case [OF assms(1-5), where R = BOOL_VAL]
  from assms(6) consider "c = OP_GREATER_EQUAL" | "c = OP_GREATER" | "c = OP_LESS"
    | "c = OP_LESS_EQUAL" by auto
  then show ?thesis
  proof cases
    case 1 then show ?thesis using b [of "d_gt P"] by simp
  next
    case 2 then show ?thesis using b [of "d_gt P"] by simp
  next
    case 3 then show ?thesis using b [of "d_lt P"] by simp
  next
    case 4 then show ?thesis using b [of "d_le P"] by simp
  qed
qed

text \<open>
  The failing input of claim C1: 1 pushed twice, then Greater-or-equal. The code
  pushes false although \<open>1 \<ge> 1\<close>.
\<close>

theorem C1_greater_equal_of_equal_numbers:
  "pushStack (initStack 2) (NUMBER_VAL (1::real))
     = Inr \<lparr>data = [Some (NUMBER_VAL 1), None], capacity = 2, count = 1\<rparr>
   \<and> pushStack \<lparr>data = [Some (NUMBER_VAL (1::real)), None], capacity = 2, count = 1\<rparr>
       (NUMBER_VAL 1)
     = Inr \<lparr>data = [Some (NUMBER_VAL 1), Some (NUMBER_VAL 1)], capacity = 2, count = 2\<rparr>
   \<and> sample_opcode_of 14 = Some OP_GREATER_EQUAL
   \<and> (\<exists>s3. step real_platform
              \<lparr>chunk = \<lparr>code = [14], constants = [], lines = [1]\<rparr>, ip = 0,
               stack = \<lparr>data = [Some (NUMBER_VAL 1), Some (NUMBER_VAL 1)],
                        capacity = 2, count = 2\<rparr>,
               stdout = [], stderr = []\<rparr>
           = Inr (Continue
              \<lparr>chunk = \<lparr>code = [14], constants = [], lines = [1]\<rparr>, ip = 1,
               stack = s3, stdout = [], stderr = []\<rparr>)
         \<and> contents s3 = [Some (BOOL_VAL False)])
   \<and> (1::real) \<ge> 1"
proof -
  let ?vm = "\<lparr>chunk = \<lparr>code = [14], constants = [], lines = [1]\<rparr>, ip = 0,
               stack = \<lparr>data = [Some (NUMBER_VAL (1::real)), Some (NUMBER_VAL 1)],
                        capacity = 2, count = 2\<rparr>,
               stdout = [], stderr = []\<rparr>"
  have op: "sample_opcode_of 14 = Some OP_GREATER_EQUAL"
    by (simp add: sample_opcode_of_def)
  then have at: "at_opcode real_platform ?vm OP_GREATER_EQUAL"
    by (simp add: at_opcode_def real_platform_def)
  from C1_comparisons [OF stack_ok_init2 push_init2 push_push_init2 _ at, of 1 1]
  have "\<exists>s3. step real_platform ?vm = Inr (Continue (?vm\<lparr>ip := ip ?vm + 1, stack := s3\<rparr>))
            \<and> contents s3 = [Some (BOOL_VAL False)]"
    by (simp add: contents_init2 real_platform_def)
  then show ?thesis
    using op push_init2 [of "NUMBER_VAL (1::real)"]
      push_push_init2 [of "NUMBER_VAL (1::real)" "NUMBER_VAL 1"] by simp
qed

text \<open>
  Claim C5. With numbers \<open>a\<close> pushed first and \<open>b\<close> second, the first pop returns
  \<open>b\<close>, the right-hand operand, and the second returns \<open>a\<close>; Add, Sub, Mult and Div
  replace the two by the number \<open>a + b\<close>, \<open>a - b\<close>, \<open>a * b\<close>, \<open>a / b\<close> of the platform's
  arithmetic, with \<open>a\<close> on the left.
\<close>

theorem C5_arithmetic_operand_order:
  assumes "stack_ok s0"
    and "pushStack s0 (NUMBER_VAL a) = Inr s1"
    and "pushStack s1 (NUMBER_VAL b) = Inr s2"
    and "stack vm = s2"
    and "at_opcode P vm c"
    and "c \<in> {OP_ADD, OP_SUB, OP_MULT, OP_DIV}"
  shows "popStack s2 = Inr (NUMBER_VAL b, s2\<lparr>count := count s2 - 1\<rparr>)
       \<and> popStack (s2\<lparr>count := count s2 - 1\<rparr>)
           = Inr (NUMBER_VAL a, s2\<lparr>count := count s2 - 2\<rparr>)
       \<and> (\<exists>s3. step P vm = Inr (Continue (vm\<lparr>ip := ip vm + 1, stack := s3\<rparr>))
            \<and> contents s3 = contents s0 @
                 [Some (NUMBER_VAL (case c of
                                      OP_ADD \<Rightarrow> d_add P a b
                                    | OP_SUB \<Rightarrow> d_sub P a b
                                    | OP_MULT \<Rightarrow> d_mul P a b
                                    | _ \<Rightarrow> d_div P a b))])"
proof -
  from two_pushes [OF assms(1-3)]
  have s2: "stack_ok s2" "contents s2 = (contents s0 @ [Some (NUMBER_VAL a)]) @ [Some (NUMBER_VAL b)]"
    by simp_all
  let ?s = "s2\<lparr>count := count s2 - 1\<rparr>"
  from popStack_ok [OF s2]
  have p1: "popStack s2 = Inr (NUMBER_VAL b, ?s)" "stack_ok ?s"
    "contents ?s = contents s0 @ [Some (NUMBER_VAL a)]" by simp_all
  from popStack_ok [OF p1(2,3)]
  have p2: "popStack ?s = Inr (NUMBER_VAL a, s2\<lparr>count := count s2 - 2\<rparr>)" by simp
  note b = binary_case [OF assms(1-5), where R = NUMBER_VAL]
  from assms(6) consider "c = OP_ADD" | "c = OP_SUB" | "c = OP_MULT" | "c = OP_DIV" by auto
  then have "\<exists>s3. step P vm = Inr (Continue (vm\<lparr>ip := ip vm + 1, stack := s3\<rparr>))
            \<and> contents s3 = contents s0 @
                 [Some (NUMBER_VAL (case c of
                                      OP_ADD \<Rightarrow> d_add P a b
                                    | OP_SUB \<Rightarrow> d_sub P a b
                                    | OP_MULT \<Rightarrow> d_mul P a b
                                    | _ \<Rightarrow> d_div P a b))]"
  proof cases
    case 1 then show ?thesis using b [of "d_add P"] by simp
  next
    case 2 then show ?thesis using b [of "d_sub P"] by simp
  next
    case 3 then show ?thesis using b [of "d_mul P"] by simp
  next
    case 4 then show ?thesis using b [of "d_div P"] by simp
  qed
  with p1(1) p2 show ?thesis by simp
qed

text \<open>The example of claim C5: 10 pushed, then 3, then Sub, leaves 7.\<close>

theorem C5_sub_10_3:
  "pushStack (initStack 2) (NUMBER_VAL (10::real))
     = Inr \<lparr>data = [Some (NUMBER_VAL 10), None], capacity = 2, count = 1\<rparr>
   \<and> pushStack \<lparr>data = [Some (NUMBER_VAL (10::real)), None], capacity = 2, count = 1\<rparr>
       (NUMBER_VAL 3)
     = Inr \<lparr>data = [Some (NUMBER_VAL 10), Some (NUMBER_VAL 3)], capacity = 2, count = 2\<rparr>
   \<and> sample_opcode_of 19 = Some OP_SUB
   \<and> (\<exists>s3. step real_platform
              \<lparr>chunk = \<lparr>code = [19], constants = [], lines = [1]\<rparr>, ip = 0,
               stack = \<lparr>data = [Some (NUMBER_VAL 10), Some (NUMBER_VAL 3)],
                        capacity = 2, count = 2\<rparr>,
               stdout = [], stderr = []\<rparr>
           = Inr (Continue
              \<lparr>chunk = \<lparr>code = [19], constants = [], lines = [1]\<rparr>, ip = 1,
               stack = s3, stdout = [], stderr = []\<rparr>)
         \<and> contents s3 = [Some (NUMBER_VAL 7)])"
proof -
  let ?vm = "\<lparr>chunk = \<lparr>code = [19], constants = [], lines = [1]\<rparr>, ip = 0,
               stack = \<lparr>data = [Some (NUMBER_VAL (10::real)), Some (NUMBER_VAL 3)],
                        capacity = 2, count = 2\<rparr>,
               stdout = [], stderr = []\<rparr>"
  have op: "sample_opcode_of 19 = Some OP_SUB"
    by (simp add: sample_opcode_of_def)
  then have at: "at_opcode real_platform ?vm OP_SUB"
    by (simp add: at_opcode_def real_platform_def)
  from C5_arithmetic_operand_order
         [OF stack_ok_init2 push_init2 push_push_init2 _ at, of 10 3]
  have "\<exists>s3. step real_platform ?vm = Inr (Continue (?vm\<lparr>ip := ip ?vm + 1, stack := s3\<rparr>))
            \<and> contents s3 = [Some (NUMBER_VAL 7)]"
    by (simp add: contents_init2 real_platform_def)
  then show ?thesis
    using op push_init2 [of "NUMBER_VAL (10::real)"]
      push_push_init2 [of "NUMBER_VAL (10::real)" "NUMBER_VAL 3"] by simp
qed

lemma equality_case:
  assumes "stack_ok s0" "pushStack s0 a = Inr s1" "pushStack s1 b = Inr s2" "stack vm = s2"
    "at_opcode P vm c"
    "dispatch P (vm\<lparr>ip := ip vm + 1\<rparr>) c = EQUALITY_OP (vm\<lparr>ip := ip vm + 1\<rparr>) bop nop"
  shows "\<exists>s3. step P vm = Inr (Continue (vm\<lparr>ip := ip vm + 1, stack := s3\<rparr>))
            \<and> contents s3 = contents s0 @
                 [Some (BOOL_VAL (case (a, b) of
                                    (NIL_VAL, NIL_VAL) \<Rightarrow> True
                                  | (BOOL_VAL x, BOOL_VAL y) \<Rightarrow> bop x y
                                  | (NUMBER_VAL x, NUMBER_VAL y) \<Rightarrow> nop x y
                                  | _ \<Rightarrow> False))]"
proof -
  let ?vm = "vm\<lparr>ip := ip vm + 1\<rparr>"
  from two_pushes [OF assms(1-3)] assms(4)
  have "stack_ok (stack ?vm)" "contents (stack ?vm) = contents s0 @ [Some a, Some b]"
    by simp_all
  from EQUALITY_OP_values [OF this, of bop nop] step_at [OF assms(5)] assms(6)
  show ?thesis by auto
qed

text \<open>
  Claim C7, as the code has it. With \<open>a\<close> pushed first and \<open>b\<close> second, Equal and
  Not-equal pop both and push one boolean. For Equal it is false when the tags
  differ, true for two nils, and the comparison of the payloads for two booleans or
  two numbers, as claimed. For Not-equal it is the same value in the first two cases:
  false when the tags differ, where the claim says true, and true for two nils; the
  payloads of two booleans or two numbers are compared with \<^verbatim>\<open>!=\<close>.
\<close>

theorem C7_equality:
  assumes "stack_ok s0"
    and "pushStack s0 a = Inr s1"
    and "pushStack s1 b = Inr s2"
    and "stack vm = s2"
    and "at_opcode P vm c"
    and "c \<in> {OP_EQUAL, OP_NOT_EQUAL}"
  shows "\<exists>s3. step P vm = Inr (Continue (vm\<lparr>ip := ip vm + 1, stack := s3\<rparr>))
            \<and> contents s3 = contents s0 @
                 [Some (BOOL_VAL (case (a, b) of
                                    (NIL_VAL, NIL_VAL) \<Rightarrow> True
                                  | (BOOL_VAL x, BOOL_VAL y) \<Rightarrow>
                                      (if c = OP_EQUAL then x = y else x \<noteq> y)
                                  | (NUMBER_VAL x, NUMBER_VAL y) \<Rightarrow>
                                      (if c = OP_EQUAL then d_eq P x y else d_ne P x y)
                                  | _ \<Rightarrow> False))]"
proof -
  note e = equality_case [OF assms(1-5)]
  from assms(6) consider "c = OP_EQUAL" | "c = OP_NOT_EQUAL" by auto
  then show ?thesis
  proof cases
    case 1
    show ?thesis unfolding 1 using e [of "(=)" "d_eq P"] 1
      by (cases a; cases b) simp_all
  next
    case 2
    show ?thesis unfolding 2 using e [of "(\<noteq>)" "d_ne P"] 2
      by (cases a; cases b) simp_all
  qed
qed

text \<open>
  The failing input of claim C7: true pushed, then the number 1, then Not-equal. The
  tags differ and the code pushes false.
\<close>

theorem C7_not_equal_of_different_types:
  "pushStack (initStack 2) (BOOL_VAL True :: real Value)
     = Inr \<lparr>data = [Some (BOOL_VAL True), None], capacity = 2, count = 1\<rparr>
   \<and> pushStack \<lparr>data = [Some (BOOL_VAL True :: real Value), None], capacity = 2, count = 1\<rparr>
       (NUMBER_VAL 1)
     = Inr \<lparr>data = [Some (BOOL_VAL True), Some (NUMBER_VAL 1)], capacity = 2, count = 2\<rparr>
   \<and> sample_opcode_of 13 = Some OP_NOT_EQUAL
   \<and> type_of (BOOL_VAL True :: real Value) \<noteq> type_of (NUMBER_VAL (1::real))
   \<and> (\<exists>s3. step real_platform
              \<lparr>chunk = \<lparr>code = [13], constants = [], lines = [1]\<rparr>, ip = 0,
               stack = \<lparr>data = [Some (BOOL_VAL True), Some (NUMBER_VAL 1)],
                        capacity = 2, count = 2\<rparr>,
               stdout = [], stderr = []\<rparr>
           = Inr (Continue
              \<lparr>chunk = \<lparr>code = [13], constants = [], lines = [1]\<rparr>, ip = 1,
               stack = s3, stdout = [], stderr = []\<rparr>)
         \<and> contents s3 = [Some (BOOL_VAL False)])"
proof -
  let ?vm = "\<lparr>chunk = \<lparr>code = [13], constants = [], lines = [1]\<rparr>, ip = 0,
               stack = \<lparr>data = [Some (BOOL_VAL True), Some (NUMBER_VAL (1::real))],
                        capacity = 2, count = 2\<rparr>,
               stdout = [], stderr = []\<rparr>"
  have op: "sample_opcode_of 13 = Some OP_NOT_EQUAL"
    by (simp add: sample_opcode_of_def)
  then have at: "at_opcode real_platform ?vm OP_NOT_EQUAL"
    by (simp add: at_opcode_def real_platform_def)
  from C7_equality
         [OF stack_ok_init2 push_init2 push_push_init2 _ at, of "BOOL_VAL True" "NUMBER_VAL 1"]
  have "\<exists>s3. step real_platform ?vm = Inr (Continue (?vm\<lparr>ip := ip ?vm + 1, stack := s3\<rparr>))
            \<and> contents s3 = [Some (BOOL_VAL False)]"
    by (simp add: contents_init2 real_platform_def)
  then show ?thesis
    using op push_init2 [of "BOOL_VAL True :: real Value"]
      push_push_init2 [of "BOOL_VAL True :: real Value" "NUMBER_VAL 1"] by simp
qed

section \<open>Claims about the opcodes with one operand\<close>

lemma top_slot:
  assumes "stack_ok s" and "contents s = xs @ [Some v]"
  shows "0 \<le> count s - 1" "count s - 1 < int (length (data s))"
    "data s ! nat (count s - 1) = Some v"
proof -
  have len: "nat (count s) = Suc (length xs)"
    using stack_ok_length [OF assms(1)] assms(2) by simp
  then show "0 \<le> count s - 1" by linarith
  have n: "nat (count s - 1) = length xs" using len by linarith
  show "count s - 1 < int (length (data s))"
    using assms(1) by (simp add: stack_ok_def)
  have "data s ! length xs = contents s ! length xs"
    using len by (simp add: contents_def)
  then show "data s ! nat (count s - 1) = Some v" by (simp add: assms(2) n)
qed

lemma runtimeError_at:
  assumes "ip vm < length (lines (chunk vm))"
  shows "runtimeError (vm\<lparr>ip := ip vm + 1\<rparr>) m
           = Inr (vm\<lparr>ip := ip vm + 1,
                     stderr := stderr vm @ [Text m, LineInScript (lines (chunk vm) ! ip vm)],
                     stack := (stack vm)\<lparr>count := 0\<rparr>\<rparr>)"
  using assms by (simp add: runtimeError_def resetStack_def Let_def)



lemma top_read:
  assumes "stack_ok s" and "contents s = xs @ [Some v]"
  shows "read_slot (data s) (count s - 1) = Inr v"
  using top_slot [OF assms] by (simp add: read_slot_def)

lemma top_write:
  assumes "stack_ok s" and "contents s = xs @ [Some v]"
  shows "write_slot (data s) (count s - 1) w = Inr ((data s)[nat (count s - 1) := Some w])"
  using top_slot [OF assms] by (simp add: write_slot_def)

lemma update_top_number:
  assumes "stack_ok (stack vm)" and "contents (stack vm) = xs @ [Some (NUMBER_VAL x)]"
  shows "update_top vm f
           = Inr (Continue (vm\<lparr>stack := (stack vm)
                    \<lparr>data := (data (stack vm))[nat (count (stack vm) - 1)
                                                 := Some (NUMBER_VAL (f x))]\<rparr>\<rparr>))"
  by (simp add: update_top_def peekStackReference_def top_read [OF assms] top_write [OF assms]
        THROW_IF_NAN_def IS_NUMBER_def)


lemma update_top_other:
  assumes "stack_ok (stack vm)" and "contents (stack vm) = xs @ [Some v]"
    and "\<not> IS_NUMBER v"
  shows "update_top vm f = throw vm ''Operand must be a number.''"
  using assms(3)
  by (simp add: update_top_def peekStackReference_def top_read [OF assms(1,2)]
        THROW_IF_NAN_def)

lemma contents_update_top:
  assumes "stack_ok s" and "contents s = xs @ [Some v]"
  shows "contents (s\<lparr>data := (data s)[nat (count s - 1) := w]\<rparr>) = xs @ [w]"
proof -
  have len: "nat (count s) = Suc (length xs)"
    using stack_ok_length [OF assms(1)] assms(2) by simp
  have n: "nat (count s - 1) = length xs" using len by linarith
  have inb: "length xs < length (data s)"
    using assms(1) len by (auto simp: stack_ok_def)
  have "take (length xs) (data s) = take (length xs) (take (nat (count s)) (data s))"
    using len by simp
  also have "\<dots> = take (length xs) (xs @ [Some v])"
    using assms(2) by (simp only: contents_def)
  finally have below: "take (length xs) (data s) = xs" by simp
  have "contents (s\<lparr>data := (data s)[nat (count s - 1) := w]\<rparr>)
          = take (Suc (length xs)) ((data s)[length xs := w])"
    by (simp add: contents_def len n)
  also have "\<dots> = take (length xs) (data s) @ [w]"
    using inb by (simp add: take_Suc_conv_app_nth)
  finally show ?thesis by (simp only: below)
qed

lemma throw_at:
  assumes "ip vm < length (lines (chunk vm))"
  shows "throw (vm\<lparr>ip := ip vm + 1\<rparr>) m
             = Inr (Return INTERPRET_RUNTIME_ERROR
                 (vm\<lparr>ip := ip vm + 1,
                     stderr := stderr vm @ [Text m, LineInScript (lines (chunk vm) ! ip vm)],
                     stack := (stack vm)\<lparr>count := 0\<rparr>\<rparr>))"
  by (simp only: throw_def runtimeError_at [OF assms] and_then_simps)


text \<open>
  Claim C6. When the top of a well-formed stack is a number \<open>x\<close>, Negate, Increment and
  Decrement overwrite that slot with \<open>x * -1\<close>, \<open>x + 1\<close> and \<open>x - 1\<close> of the platform's
  arithmetic; the count, the capacity and every other slot stay as they are and the
  loop goes on. When the top is not a number (and the line table covers the
  instruction), the run ends with the runtime-error result, the diagnostic
  \<open>Operand must be a number.\<close> followed by the line of the instruction, and a count
  of 0.
\<close>

theorem C6_unary_in_place:
  assumes "stack_ok (stack vm)"
    and "contents (stack vm) = xs @ [Some v]"
    and "at_opcode P vm c"
    and "c \<in> {OP_NEGATE, OP_INC, OP_DEC}"
  shows "(\<forall>x. v = NUMBER_VAL x \<longrightarrow>
            (let y = (case c of OP_NEGATE \<Rightarrow> d_mul P x (d_of_int P (- 1))
                              | OP_INC \<Rightarrow> d_add P x (d_of_int P 1)
                              | _ \<Rightarrow> d_sub P x (d_of_int P 1));
                 s' = (stack vm)\<lparr>data := (data (stack vm))[nat (count (stack vm) - 1)
                                                              := Some (NUMBER_VAL y)]\<rparr>
             in step P vm = Inr (Continue (vm\<lparr>ip := ip vm + 1, stack := s'\<rparr>))
                \<and> contents s' = xs @ [Some (NUMBER_VAL y)]
                \<and> count s' = count (stack vm)))
       \<and> (\<not> IS_NUMBER v \<and> ip vm < length (lines (chunk vm)) \<longrightarrow>
            run P vm
              = Inr (INTERPRET_RUNTIME_ERROR,
                     vm\<lparr>ip := ip vm + 1,
                        stderr := stderr vm @ [Text ''Operand must be a number.'',
                                               LineInScript (lines (chunk vm) ! ip vm)],
                        stack := (stack vm)\<lparr>count := 0\<rparr>\<rparr>))"
proof (intro conjI allI impI)
  fix x
  assume v: "v = NUMBER_VAL x"
  let ?vm = "vm\<lparr>ip := ip vm + 1\<rparr>"
  have ok: "stack_ok (stack ?vm)" "contents (stack ?vm) = xs @ [Some (NUMBER_VAL x)]"
    using assms(1,2) v by simp_all
  have u: "update_top ?vm f
             = Inr (Continue (vm\<lparr>ip := ip vm + 1, stack := (stack vm)
                      \<lparr>data := (data (stack vm))[nat (count (stack vm) - 1)
                                                   := Some (NUMBER_VAL (f x))]\<rparr>\<rparr>))" for f
    using update_top_number [OF ok, of f] by simp
  note cu = contents_update_top [OF assms(1,2)]
  from assms(4) consider "c = OP_NEGATE" | "c = OP_INC" | "c = OP_DEC" by auto
  then show "let y = (case c of OP_NEGATE \<Rightarrow> d_mul P x (d_of_int P (- 1))
                              | OP_INC \<Rightarrow> d_add P x (d_of_int P 1)
                              | _ \<Rightarrow> d_sub P x (d_of_int P 1));
                 s' = (stack vm)\<lparr>data := (data (stack vm))[nat (count (stack vm) - 1)
                                                              := Some (NUMBER_VAL y)]\<rparr>
             in step P vm = Inr (Continue (vm\<lparr>ip := ip vm + 1, stack := s'\<rparr>))
                \<and> contents s' = xs @ [Some (NUMBER_VAL y)]
                \<and> count s' = count (stack vm)"
  proof cases
    case 1 then show ?thesis by (simp only: Let_def step_at [OF assms(3)] dispatch.simps u cu) simp
  next
    case 2 then show ?thesis by (simp only: Let_def step_at [OF assms(3)] dispatch.simps u cu) simp
  next
    case 3 then show ?thesis by (simp only: Let_def step_at [OF assms(3)] dispatch.simps u cu) simp
  qed
next
  assume a: "\<not> IS_NUMBER v \<and> ip vm < length (lines (chunk vm))"
  let ?vm = "vm\<lparr>ip := ip vm + 1\<rparr>"
  have ok: "stack_ok (stack ?vm)" "contents (stack ?vm) = xs @ [Some v]"
    using assms(1,2) by simp_all
  have u: "update_top ?vm f = throw ?vm ''Operand must be a number.''" for f
    using a by (rule update_top_other [OF ok conjunct1])
  from assms(4) consider "c = OP_NEGATE" | "c = OP_INC" | "c = OP_DEC" by auto
  then have "dispatch P ?vm c = throw ?vm ''Operand must be a number.''"
    by cases (simp_all only: dispatch.simps u)
  then have "step P vm = Inr (Return INTERPRET_RUNTIME_ERROR
                 (vm\<lparr>ip := ip vm + 1,
                     stderr := stderr vm @ [Text ''Operand must be a number.'',
                                            LineInScript (lines (chunk vm) ! ip vm)],
                     stack := (stack vm)\<lparr>count := 0\<rparr>\<rparr>))"
    using a by (simp only: step_at [OF assms(3)] throw_at)
  then show "run P vm
              = Inr (INTERPRET_RUNTIME_ERROR,
                     vm\<lparr>ip := ip vm + 1,
                        stderr := stderr vm @ [Text ''Operand must be a number.'',
                                               LineInScript (lines (chunk vm) ! ip vm)],
                        stack := (stack vm)\<lparr>count := 0\<rparr>\<rparr>)"
    by (rule run_Return)
qed


lemma stack_ok_one: "stack_ok \<lparr>data = [Some v, None], capacity = 2, count = 1\<rparr>"
  by (simp add: stack_ok_def contents_def)

lemma contents_one: "contents \<lparr>data = [Some v, None], capacity = 2, count = 1\<rparr> = [] @ [Some v]"
  by (simp add: contents_def)

text \<open>
  Claim C6 on two inputs: Negate on the number 5 leaves \<open>-5\<close> in the same slot, and
  Negate after \<open>true\<close> was pushed ends the run with the diagnostic and an empty stack.
\<close>

theorem C6_negate_number_and_boolean:
  "step real_platform
     \<lparr>chunk = \<lparr>code = [5], constants = [], lines = [7]\<rparr>, ip = 0,
      stack = \<lparr>data = [Some (NUMBER_VAL 5), None], capacity = 2, count = 1\<rparr>,
      stdout = [], stderr = []\<rparr>
   = Inr (Continue
     \<lparr>chunk = \<lparr>code = [5], constants = [], lines = [7]\<rparr>, ip = 1,
      stack = \<lparr>data = [Some (NUMBER_VAL (- 5)), None], capacity = 2, count = 1\<rparr>,
      stdout = [], stderr = []\<rparr>)
   \<and> run real_platform
     \<lparr>chunk = \<lparr>code = [2, 5], constants = [], lines = [7, 8]\<rparr>, ip = 1,
      stack = \<lparr>data = [Some (BOOL_VAL True), None], capacity = 2, count = 1\<rparr>,
      stdout = [], stderr = []\<rparr>
   = Inr (INTERPRET_RUNTIME_ERROR,
     \<lparr>chunk = \<lparr>code = [2, 5], constants = [], lines = [7, 8]\<rparr>, ip = 2,
      stack = \<lparr>data = [Some (BOOL_VAL True), None], capacity = 2, count = 0\<rparr>,
      stdout = [], stderr = [Text ''Operand must be a number.'', LineInScript 8]\<rparr>)"
proof -
  let ?a = "\<lparr>chunk = \<lparr>code = [5], constants = [], lines = [7]\<rparr>, ip = 0,
      stack = \<lparr>data = [Some (NUMBER_VAL (5::real)), None], capacity = 2, count = 1\<rparr>,
      stdout = [], stderr = []\<rparr>"
  let ?b = "\<lparr>chunk = \<lparr>code = [2, 5], constants = [], lines = [7, 8]\<rparr>, ip = 1,
      stack = \<lparr>data = [Some (BOOL_VAL True :: real Value), None], capacity = 2, count = 1\<rparr>,
      stdout = [], stderr = []\<rparr>"
  have op: "sample_opcode_of 5 = Some OP_NEGATE" by (simp add: sample_opcode_of_def)
  have at_a: "at_opcode real_platform ?a OP_NEGATE"
    using op by (simp add: at_opcode_def real_platform_def)
  have at_b: "at_opcode real_platform ?b OP_NEGATE"
    using op by (simp add: at_opcode_def real_platform_def)
  have ok_a: "stack_ok (stack ?a)" using stack_ok_one [of "NUMBER_VAL (5::real)"] by simp
  have ok_b: "stack_ok (stack ?b)" using stack_ok_one [of "BOOL_VAL True :: real Value"] by simp
  have c_a: "contents (stack ?a) = [] @ [Some (NUMBER_VAL 5)]"
    using contents_one [of "NUMBER_VAL (5::real)"] by simp
  have c_b: "contents (stack ?b) = [] @ [Some (BOOL_VAL True)]"
    using contents_one [of "BOOL_VAL True :: real Value"] by simp
  have m: "OP_NEGATE \<in> {OP_NEGATE, OP_INC, OP_DEC}" by simp
  from C6_unary_in_place [OF ok_a c_a at_a m]
  have a: "step real_platform ?a = Inr (Continue
     \<lparr>chunk = \<lparr>code = [5], constants = [], lines = [7]\<rparr>, ip = 1,
      stack = \<lparr>data = [Some (NUMBER_VAL (- 5)), None], capacity = 2, count = 1\<rparr>,
      stdout = [], stderr = []\<rparr>)"
    by (simp add: Let_def real_platform_def)
  from C6_unary_in_place [OF ok_b c_b at_b m]
  have b: "run real_platform ?b = Inr (INTERPRET_RUNTIME_ERROR,
     \<lparr>chunk = \<lparr>code = [2, 5], constants = [], lines = [7, 8]\<rparr>, ip = 2,
      stack = \<lparr>data = [Some (BOOL_VAL True), None], capacity = 2, count = 0\<rparr>,
      stdout = [], stderr = [Text ''Operand must be a number.'', LineInScript 8]\<rparr>)"
    by (simp add: IS_NUMBER_def)
  from a b show ?thesis by (rule conjI)
qed

section \<open>Claims about single instructions\<close>

text \<open>
  Claim C8. At a Load-constant instruction whose operand byte lies in the code and
  indexes the constant pool, on a well-formed stack: if the constant is a number it
  is pushed, the cursor moves past the operand and the loop goes on; if it is not a
  number the run ends with the runtime-error result and the diagnostic
  \<open>Operand must be a number.\<close>, and nothing was pushed: the buffer is the one before
  the instruction and the count is 0.
\<close>

theorem C8_load_constant:
  assumes "at_opcode P vm OP_CONSTANT"
    and "ip vm + 1 < length (code (chunk vm))"
    and "unat (code (chunk vm) ! (ip vm + 1)) < length (constants (chunk vm))"
    and "constant = constants (chunk vm) ! unat (code (chunk vm) ! (ip vm + 1))"
    and "stack_ok (stack vm)"
    and "ip vm < length (lines (chunk vm))"
  shows "(IS_NUMBER constant \<longrightarrow>
            (\<exists>s1. pushStack (stack vm) constant = Inr s1
                \<and> contents s1 = contents (stack vm) @ [Some constant]
                \<and> step P vm = Inr (Continue (vm\<lparr>ip := ip vm + 2, stack := s1\<rparr>))))
       \<and> (\<not> IS_NUMBER constant \<longrightarrow>
            run P vm
              = Inr (INTERPRET_RUNTIME_ERROR,
                     vm\<lparr>ip := ip vm + 1,
                        stderr := stderr vm @ [Text ''Operand must be a number.'',
                                               LineInScript (lines (chunk vm) ! ip vm)],
                        stack := (stack vm)\<lparr>count := 0\<rparr>\<rparr>))"
proof (intro conjI impI)
  let ?vm = "vm\<lparr>ip := ip vm + 1\<rparr>"
  have f: "fetch (code (chunk ?vm)) (ip ?vm) = Inr (code (chunk vm) ! (ip vm + 1))"
    using assms(2) by (simp add: fetch_def)
  have k: "constant_at (constants (chunk ?vm)) (code (chunk vm) ! (ip vm + 1)) = Inr constant"
    using assms(3,4) by (simp add: constant_at_def)
  have d: "dispatch P ?vm OP_CONSTANT
             = THROW_IF_NAN ?vm constant
                 (and_then (pushStack (stack vm) constant) (\<lambda>s1.
                    Inr (Continue (vm\<lparr>ip := ip vm + 2, stack := s1\<rparr>))))"
    using f k by (simp add: Let_def)
  {
    assume n: "IS_NUMBER constant"
    from pushStack_ok [OF assms(5), of "constant"] obtain s1 where
      s1: "pushStack (stack vm) constant = Inr s1"
          "contents s1 = contents (stack vm) @ [Some constant]" by blast
    have "step P vm = Inr (Continue (vm\<lparr>ip := ip vm + 2, stack := s1\<rparr>))"
      using n s1(1) d by (simp add: step_at [OF assms(1)] THROW_IF_NAN_def)
    with s1 show "\<exists>s1. pushStack (stack vm) constant = Inr s1
                \<and> contents s1 = contents (stack vm) @ [Some constant]
                \<and> step P vm = Inr (Continue (vm\<lparr>ip := ip vm + 2, stack := s1\<rparr>))"
      by blast
  }
  {
    assume n: "\<not> IS_NUMBER constant"
    have "dispatch P ?vm OP_CONSTANT = throw ?vm ''Operand must be a number.''"
      using n by (simp only: d THROW_IF_NAN_def if_True not_False_eq_True)
    then have "step P vm = Inr (Return INTERPRET_RUNTIME_ERROR
                 (vm\<lparr>ip := ip vm + 1,
                     stderr := stderr vm @ [Text ''Operand must be a number.'',
                                            LineInScript (lines (chunk vm) ! ip vm)],
                     stack := (stack vm)\<lparr>count := 0\<rparr>\<rparr>))"
      by (simp only: step_at [OF assms(1)] throw_at [OF assms(6)])
    then show "run P vm
              = Inr (INTERPRET_RUNTIME_ERROR,
                     vm\<lparr>ip := ip vm + 1,
                        stderr := stderr vm @ [Text ''Operand must be a number.'',
                                               LineInScript (lines (chunk vm) ! ip vm)],
                        stack := (stack vm)\<lparr>count := 0\<rparr>\<rparr>)"
      by (rule run_Return)
  }
qed


text \<open>
  Claim C2, as the code has it. A byte that is the value of no case label is not
  fatal: the pass only advances the cursor by one, prints nothing, leaves the stack
  alone, and the run goes on with the next byte.
\<close>

theorem C2_unknown_byte_is_skipped:
  assumes "ip vm < length (code (chunk vm))"
    and "opcode_of P (code (chunk vm) ! ip vm) = None"
  shows "step P vm = Inr (Continue (vm\<lparr>ip := ip vm + 1\<rparr>))
       \<and> run P vm = run P (vm\<lparr>ip := ip vm + 1\<rparr>)"
proof -
  have "step P vm = Inr (Continue (vm\<lparr>ip := ip vm + 1\<rparr>))"
    using assms by (simp add: step_def fetch_def Let_def)
  then show ?thesis using run_Continue by blast
qed

text \<open>
  Claim C3, as the code has it. On a stack with count 0, \<open>peekStack\<close> stops at its
  assertion, but \<open>peekStackReference\<close> checks nothing and returns the slot before the
  buffer; Negate, Increment and Decrement then read that slot, outside the buffer.
\<close>

theorem C3_no_check_in_peekStackReference:
  assumes "count (stack vm) = 0"
    and "at_opcode P vm c"
    and "c \<in> {OP_NEGATE, OP_INC, OP_DEC}"
  shows "peekStack (stack vm) 0 = Inl AssertionFailed
       \<and> peekStackReference (stack vm) 0 = - 1
       \<and> step P vm = Inl OutOfBounds"
proof -
  have u: "update_top (vm\<lparr>ip := ip vm + 1\<rparr>) f = Inl OutOfBounds" for f
    using assms(1) by (simp add: update_top_def peekStackReference_def read_slot_def)
  from assms(3) consider "c = OP_NEGATE" | "c = OP_INC" | "c = OP_DEC" by auto
  then have "step P vm = Inl OutOfBounds"
    using u by cases (simp_all add: step_at [OF assms(2)])
  then show ?thesis
    using assms(1) by (simp add: peekStack_def isStackEmpty_def peekStackReference_def)
qed


section \<open>The claims on concrete inputs\<close>

lemma stack_ok_two: "stack_ok \<lparr>data = [Some v, Some w], capacity = 2, count = 2\<rparr>"
  by (simp add: stack_ok_def contents_def)

lemma contents_two:
  "contents \<lparr>data = [Some v, Some w], capacity = 2, count = 2\<rparr> = [Some v] @ [Some w]"
  by (simp add: contents_def)

text \<open>
  Claim C8 on two inputs: Load-constant of the number 10 pushes it and goes on;
  Load-constant of a boolean constant ends the run with the diagnostic, the line of
  the instruction, and nothing pushed.
\<close>

theorem C8_number_and_boolean_constant:
  "(\<exists>s1. pushStack (initStack 2) (NUMBER_VAL (10::real)) = Inr s1
        \<and> contents s1 = [Some (NUMBER_VAL 10)]
        \<and> step real_platform (initVM 2 \<lparr>code = [1, 0], constants = [NUMBER_VAL 10], lines = [7, 7]\<rparr>)
            = Inr (Continue
                \<lparr>chunk = \<lparr>code = [1, 0], constants = [NUMBER_VAL 10], lines = [7, 7]\<rparr>,
                 ip = 2, stack = s1, stdout = [], stderr = []\<rparr>))
   \<and> run real_platform (initVM 2 \<lparr>code = [1, 0], constants = [BOOL_VAL True], lines = [7, 7]\<rparr>)
       = Inr (INTERPRET_RUNTIME_ERROR,
              \<lparr>chunk = \<lparr>code = [1, 0], constants = [BOOL_VAL True], lines = [7, 7]\<rparr>,
               ip = 1, stack = \<lparr>data = [None, None], capacity = 2, count = 0\<rparr>,
               stdout = [],
               stderr = [Text ''Operand must be a number.'', LineInScript 7]\<rparr>)"
proof -
  let ?a = "initVM 2 \<lparr>code = [1, 0], constants = [NUMBER_VAL (10::real)], lines = [7, 7]\<rparr>"
  let ?b = "initVM 2 \<lparr>code = [1, 0], constants = [BOOL_VAL True :: real Value], lines = [7, 7]\<rparr>"
  have op: "sample_opcode_of 1 = Some OP_CONSTANT" by (simp add: sample_opcode_of_def)
  have at_a: "at_opcode real_platform ?a OP_CONSTANT"
    using op by (simp add: at_opcode_def real_platform_def initVM_def)
  have at_b: "at_opcode real_platform ?b OP_CONSTANT"
    using op by (simp add: at_opcode_def real_platform_def initVM_def)
  have ok_a: "stack_ok (stack ?a)" by (simp add: initVM_def stack_ok_init2)
  have ok_b: "stack_ok (stack ?b)" by (simp add: initVM_def stack_ok_init2)
  from C8_load_constant [OF at_a _ _ _ ok_a, of "NUMBER_VAL 10"]
  have a: "\<exists>s1. pushStack (initStack 2) (NUMBER_VAL (10::real)) = Inr s1
        \<and> contents s1 = [Some (NUMBER_VAL 10)]
        \<and> step real_platform ?a
            = Inr (Continue
                \<lparr>chunk = \<lparr>code = [1, 0], constants = [NUMBER_VAL 10], lines = [7, 7]\<rparr>,
                 ip = 2, stack = s1, stdout = [], stderr = []\<rparr>)"
    by (simp add: initVM_def IS_NUMBER_def contents_init2 numeral_2_eq_2)
  from C8_load_constant [OF at_b _ _ _ ok_b, of "BOOL_VAL True"]
  have b: "run real_platform ?b
       = Inr (INTERPRET_RUNTIME_ERROR,
              \<lparr>chunk = \<lparr>code = [1, 0], constants = [BOOL_VAL True], lines = [7, 7]\<rparr>,
               ip = 1, stack = \<lparr>data = [None, None], capacity = 2, count = 0\<rparr>,
               stdout = [],
               stderr = [Text ''Operand must be a number.'', LineInScript 7]\<rparr>)"
    by (simp add: initVM_def IS_NUMBER_def initStack_2)
  from a b show ?thesis by (rule conjI)
qed


text \<open>
  The failing input of claim C2: the byte 200, which is no opcode, before Load-true
  and Return. The run skips it, prints \<open>true\<close> and returns OK with nothing on the
  error channel.
\<close>

theorem C2_byte_200_then_true_ret:
  "opcode_of real_platform 200 = None
   \<and> step real_platform (initVM 2 \<lparr>code = [200, 2, 0], constants = [], lines = [7, 7, 7]\<rparr>)
       = Inr (Continue
           \<lparr>chunk = \<lparr>code = [200, 2, 0], constants = [], lines = [7, 7, 7]\<rparr>, ip = 1,
            stack = \<lparr>data = [None, None], capacity = 2, count = 0\<rparr>,
            stdout = [], stderr = []\<rparr>)
   \<and> run real_platform (initVM 2 \<lparr>code = [200, 2, 0], constants = [], lines = [7, 7, 7]\<rparr>)
       = run real_platform
           \<lparr>chunk = \<lparr>code = [200, 2, 0], constants = [], lines = [7, 7, 7]\<rparr>, ip = 1,
            stack = \<lparr>data = [None, None], capacity = 2, count = 0\<rparr>,
            stdout = [], stderr = []\<rparr>
   \<and> run real_platform
           \<lparr>chunk = \<lparr>code = [200, 2, 0], constants = [], lines = [7, 7, 7]\<rparr>, ip = 1,
            stack = \<lparr>data = [None, None], capacity = 2, count = 0\<rparr>,
            stdout = [], stderr = []\<rparr>
       = Inr (INTERPRET_OK,
           \<lparr>chunk = \<lparr>code = [200, 2, 0], constants = [], lines = [7, 7, 7]\<rparr>, ip = 3,
            stack = \<lparr>data = [Some (BOOL_VAL True), None], capacity = 2, count = 0\<rparr>,
            stdout = [Text ''true''], stderr = []\<rparr>)"
proof -
  let ?vm = "initVM 2 \<lparr>code = [200, 2, 0], constants = [] :: real Value list, lines = [7, 7, 7]\<rparr>"
  have op: "opcode_of real_platform 200 = None"
    by (simp add: real_platform_def sample_opcode_of_def)
  have i: "ip ?vm < length (code (chunk ?vm))" by (simp add: initVM_def)
  have n: "opcode_of real_platform (code (chunk ?vm) ! ip ?vm) = None"
    using op by (simp add: initVM_def)
  have r: "run real_platform
           \<lparr>chunk = \<lparr>code = [200, 2, 0], constants = [], lines = [7, 7, 7]\<rparr>, ip = 1,
            stack = \<lparr>data = [None, None], capacity = 2, count = 0\<rparr>,
            stdout = [], stderr = []\<rparr>
       = Inr (INTERPRET_OK,
           \<lparr>chunk = \<lparr>code = [200, 2, 0], constants = [], lines = [7, 7, 7]\<rparr>, ip = 3,
            stack = \<lparr>data = [Some (BOOL_VAL True), None], capacity = 2, count = 0\<rparr>,
            stdout = [Text ''true''], stderr = []\<rparr>)"
    by (simp add: run.simps step_def fetch_def Let_def real_platform_def sample_opcode_of_def
          pushStack_def popStack_def isStackFull_def isStackEmpty_def write_slot_def
          read_slot_def)
  from C2_unknown_byte_is_skipped [OF i n] op r show ?thesis
    by (simp add: initVM_def initStack_2)
qed

text \<open>
  The failing input of claim C3: Negate as the first instruction, on the empty stack
  of a fresh machine.
\<close>

theorem C3_negate_on_empty_stack:
  "peekStack (stack (initVM 2 \<lparr>code = [5], constants = [] :: real Value list, lines = [7]\<rparr>)) 0
     = Inl AssertionFailed
   \<and> peekStackReference
       (stack (initVM 2 \<lparr>code = [5], constants = [] :: real Value list, lines = [7]\<rparr>)) 0 = - 1
   \<and> step real_platform (initVM 2 \<lparr>code = [5], constants = [], lines = [7]\<rparr>)
       = Inl OutOfBounds"
proof -
  let ?vm = "initVM 2 \<lparr>code = [5], constants = [] :: real Value list, lines = [7]\<rparr>"
  have op: "sample_opcode_of 5 = Some OP_NEGATE" by (simp add: sample_opcode_of_def)
  have at: "at_opcode real_platform ?vm OP_NEGATE"
    using op by (simp add: at_opcode_def real_platform_def initVM_def)
  have z: "count (stack ?vm) = 0" by (simp add: initVM_def initStack_def)
  have m: "OP_NEGATE \<in> {OP_NEGATE, OP_INC, OP_DEC}" by simp
  from C3_no_check_in_peekStackReference [OF z at m] show ?thesis .
qed

section \<open>Runs that end in a runtime error\<close>

lemma throw_result:
  assumes "throw vm m = Inr r"
  shows "0 < ip vm \<and> ip vm - 1 < length (lines (chunk vm))
       \<and> r = Return INTERPRET_RUNTIME_ERROR
               (vm\<lparr>stderr := stderr vm @ [Text m, LineInScript (lines (chunk vm) ! (ip vm - 1))],
                   stack := (stack vm)\<lparr>count := 0\<rparr>\<rparr>)"
proof -
  from assms obtain vm' where
    e: "runtimeError vm m = Inr vm'" and r: "r = Return INTERPRET_RUNTIME_ERROR vm'"
    by (auto simp: throw_def and_then_Inr)
  from e have b: "0 \<le> int (ip vm) - 1" "int (ip vm) - 1 < int (length (lines (chunk vm)))"
    by (simp_all add: runtimeError_def Let_def split: if_splits)
  then have n: "nat (int (ip vm) - 1) = ip vm - 1" by linarith
  from e b have "vm' = vm\<lparr>stderr := stderr vm @ [Text m, LineInScript (lines (chunk vm) ! (ip vm - 1))],
                   stack := (stack vm)\<lparr>count := 0\<rparr>\<rparr>"
    by (simp add: runtimeError_def Let_def resetStack_def n)
  with b r show ?thesis by simp
qed

lemma BINARY_OP_error:
  "BINARY_OP vm R op = Inr (Return INTERPRET_RUNTIME_ERROR vm') \<Longrightarrow> raised vm vm'"
  by (auto simp: BINARY_OP_def and_then_Inr raised_def split: if_splits)

lemma BINARY_LOGIC_OP_error:
  "BINARY_LOGIC_OP vm op \<noteq> Inr (Return r vm')"
  by (auto simp: BINARY_LOGIC_OP_def and_then_Inr)

lemma EQUALITY_OP_error:
  "EQUALITY_OP vm bop nop \<noteq> Inr (Return r vm')"
  by (auto simp: EQUALITY_OP_def and_then_Inr)

lemma update_top_error:
  "update_top vm f = Inr (Return INTERPRET_RUNTIME_ERROR vm') \<Longrightarrow> raised vm vm'"
  by (auto simp: update_top_def THROW_IF_NAN_def Let_def and_then_Inr raised_def
           split: if_splits)

lemma dispatch_error:
  "dispatch P vm c = Inr (Return INTERPRET_RUNTIME_ERROR vm') \<Longrightarrow> raised vm vm'"
proof (cases c)
  case OP_CONSTANT
  assume "dispatch P vm c = Inr (Return INTERPRET_RUNTIME_ERROR vm')"
  with OP_CONSTANT show ?thesis
    by (auto simp: and_then_Inr THROW_IF_NAN_def Let_def raised_def split: if_splits)
qed (auto simp: and_then_Inr BINARY_LOGIC_OP_error EQUALITY_OP_error
          dest: BINARY_OP_error update_top_error)


lemma step_error:
  assumes "step P vm = Inr (Return INTERPRET_RUNTIME_ERROR vm')"
  shows "\<exists>msg. msg \<in> {''Operand must be a number.'', ''Operands must be numbers.''}
           \<and> ip vm < length (lines (chunk vm))
           \<and> vm' = vm\<lparr>ip := ip vm + 1,
                        stderr := stderr vm @ [Text msg, LineInScript (lines (chunk vm) ! ip vm)],
                        stack := (stack vm)\<lparr>count := 0\<rparr>\<rparr>"
proof -
  let ?vm = "vm\<lparr>ip := ip vm + 1\<rparr>"
  from assms obtain c where "dispatch P ?vm c = Inr (Return INTERPRET_RUNTIME_ERROR vm')"
    by (auto simp: step_def Let_def and_then_Inr split: option.splits)
  then have "raised ?vm vm'" by (rule dispatch_error)
  then obtain msg where
    m: "msg \<in> {''Operand must be a number.'', ''Operands must be numbers.''}"
    and t: "throw ?vm msg = Inr (Return INTERPRET_RUNTIME_ERROR vm')"
    unfolding raised_def by blast
  from throw_result [OF t] have "ip vm < length (lines (chunk vm))"
    and "vm' = vm\<lparr>ip := ip vm + 1,
                    stderr := stderr vm @ [Text msg, LineInScript (lines (chunk vm) ! ip vm)],
                    stack := (stack vm)\<lparr>count := 0\<rparr>\<rparr>"
    by simp_all
  with m show ?thesis by blast
qed

lemma run_error_from:
  "run P vm = Inr (INTERPRET_RUNTIME_ERROR, vm') \<Longrightarrow>
     \<exists>s. reaches P vm s \<and> step P s = Inr (Return INTERPRET_RUNTIME_ERROR vm')
        \<and> chunk s = chunk vm \<and> stdout s = stdout vm \<and> stderr s = stderr vm"
proof (induction P vm rule: run.induct)
  case (1 P vm)
  show ?case
  proof (cases "step P vm")
    case (Inl f)
    with "1.prems" show ?thesis by (simp add: run_fault)
  next
    case (Inr x)
    show ?thesis
    proof (cases x)
      case (Continue vm1)
      with Inr have st: "step P vm = Inr (Continue vm1)" by simp
      from "1.prems" run_Continue [OF st]
      have "run P vm1 = Inr (INTERPRET_RUNTIME_ERROR, vm')" by simp
      from "1.IH" [OF Inr Continue this] obtain s where
        s: "reaches P vm1 s" "step P s = Inr (Return INTERPRET_RUNTIME_ERROR vm')"
           "chunk s = chunk vm1" "stdout s = stdout vm1" "stderr s = stderr vm1"
        by blast
      from st s(1) have "reaches P vm s" by (rule reaches_pass)
      with s step_pos [OF st] show ?thesis by auto
    next
      case (Return r vm1)
      with Inr have st: "step P vm = Inr (Return r vm1)" by simp
      from "1.prems" run_Return [OF st] have "r = INTERPRET_RUNTIME_ERROR" "vm1 = vm'"
        by simp_all
      with st have "step P vm = Inr (Return INTERPRET_RUNTIME_ERROR vm')" by simp
      with reaches_here [of P vm] show ?thesis by blast
    qed
  qed
qed

lemma reaches_run:
  "reaches P vm s \<Longrightarrow>
     run P vm = run P s \<and> chunk s = chunk vm \<and> stdout s = stdout vm \<and> stderr s = stderr vm"
proof (induction rule: reaches.induct)
  case (reaches_here vm)
  show ?case by simp
next
  case (reaches_pass vm vm1 vm2)
  from run_Continue [OF reaches_pass.hyps(1)] step_pos [OF reaches_pass.hyps(1)]
    reaches_pass.IH
  show ?case by simp
qed

lemma BINARY_OP_other:
  assumes ok: "stack_ok (stack vm)"
    and c: "contents (stack vm) = xs @ [Some a, Some b]"
    and n: "\<not> (IS_NUMBER a \<and> IS_NUMBER b)"
  shows "BINARY_OP vm R op = throw vm ''Operands must be numbers.''"
proof -
  from c have c': "contents (stack vm) = (xs @ [Some a]) @ [Some b]" by simp
  have p0: "peekStack (stack vm) 0 = Inr b" by (rule peekStack_top [OF ok c'])
  have p1: "peekStack (stack vm) 1 = Inr a" by (rule peekStack_second [OF ok c])
  show ?thesis using n by (simp add: BINARY_OP_def p0 p1)
qed

lemma type_error_step:
  assumes at: "at_opcode P s c"
    and ln: "ip s < length (lines (chunk s))"
    and ok: "stack_ok (stack s)"
    and te: "(c \<in> {OP_GREATER_EQUAL, OP_GREATER, OP_LESS_EQUAL, OP_LESS,
                   OP_ADD, OP_SUB, OP_MULT, OP_DIV}
              \<and> contents (stack s) = xs @ [Some a, Some b]
              \<and> \<not> (IS_NUMBER a \<and> IS_NUMBER b)
              \<and> msg = ''Operands must be numbers.'')
           \<or> (c \<in> {OP_NEGATE, OP_INC, OP_DEC}
              \<and> contents (stack s) = xs @ [Some a]
              \<and> \<not> IS_NUMBER a
              \<and> msg = ''Operand must be a number.'')
           \<or> (c = OP_CONSTANT
              \<and> ip s + 1 < length (code (chunk s))
              \<and> unat (code (chunk s) ! (ip s + 1)) < length (constants (chunk s))
              \<and> \<not> IS_NUMBER (constants (chunk s) ! unat (code (chunk s) ! (ip s + 1)))
              \<and> msg = ''Operand must be a number.'')"
  shows "step P s = Inr (Return INTERPRET_RUNTIME_ERROR
           (s\<lparr>ip := ip s + 1,
              stderr := stderr s @ [Text msg, LineInScript (lines (chunk s) ! ip s)],
              stack := (stack s)\<lparr>count := 0\<rparr>\<rparr>))"
proof -
  let ?s = "s\<lparr>ip := ip s + 1\<rparr>"
  have "dispatch P ?s c = throw ?s msg"
    using te
  proof (elim disjE conjE)
    assume m: "c \<in> {OP_GREATER_EQUAL, OP_GREATER, OP_LESS_EQUAL, OP_LESS,
                   OP_ADD, OP_SUB, OP_MULT, OP_DIV}"
      and c: "contents (stack s) = xs @ [Some a, Some b]"
      and n: "\<not> (IS_NUMBER a \<and> IS_NUMBER b)"
      and msg: "msg = ''Operands must be numbers.''"
    have ok': "stack_ok (stack ?s)" "contents (stack ?s) = xs @ [Some a, Some b]"
      using ok c by simp_all
    have b: "BINARY_OP ?s R op = throw ?s ''Operands must be numbers.''" for R :: "'r \<Rightarrow> 'a Value" and op
      by (rule BINARY_OP_other [OF ok' n])
    from m consider "c = OP_GREATER_EQUAL" | "c = OP_GREATER" | "c = OP_LESS_EQUAL"
      | "c = OP_LESS" | "c = OP_ADD" | "c = OP_SUB" | "c = OP_MULT" | "c = OP_DIV" by auto
    then show ?thesis
      by cases (simp_all only: dispatch.simps b msg)
  next
    assume m: "c \<in> {OP_NEGATE, OP_INC, OP_DEC}"
      and c: "contents (stack s) = xs @ [Some a]"
      and n: "\<not> IS_NUMBER a"
      and msg: "msg = ''Operand must be a number.''"
    have ok': "stack_ok (stack ?s)" "contents (stack ?s) = xs @ [Some a]"
      using ok c by simp_all
    have u: "update_top ?s f = throw ?s ''Operand must be a number.''" for f
      by (rule update_top_other [OF ok' n])
    from m consider "c = OP_NEGATE" | "c = OP_INC" | "c = OP_DEC" by auto
    then show ?thesis
      by cases (simp_all only: dispatch.simps u msg)
  next
    assume m: "c = OP_CONSTANT"
      and i: "ip s + 1 < length (code (chunk s))"
      and k: "unat (code (chunk s) ! (ip s + 1)) < length (constants (chunk s))"
      and n: "\<not> IS_NUMBER (constants (chunk s) ! unat (code (chunk s) ! (ip s + 1)))"
      and msg: "msg = ''Operand must be a number.''"
    have f: "fetch (code (chunk ?s)) (ip ?s) = Inr (code (chunk s) ! (ip s + 1))"
      using i by (simp add: fetch_def)
    have k': "constant_at (constants (chunk ?s)) (code (chunk s) ! (ip s + 1))
               = Inr (constants (chunk s) ! unat (code (chunk s) ! (ip s + 1)))"
      using k by (simp add: constant_at_def)
    show ?thesis
      using f k' n by (simp add: m msg THROW_IF_NAN_def)
  qed
  then show ?thesis
    by (simp only: step_at [OF at] throw_at [OF ln])
qed

text \<open>
  Claim C4, in both directions.

  Every type error is reported. When the loop has got from \<open>vm\<close> to a machine \<open>s\<close>
  with a well-formed stack whose instruction is an arithmetic or comparison opcode
  with an operand that is not a number, or Negate, Increment or Decrement with a top
  that is not a number, or Load-constant of a constant that is not a number, and the
  line table covers the instruction, then the run from \<open>vm\<close> returns the runtime-error
  result. Its error channel is the one at the start followed by the diagnostic and by
  the line that the line table gives for \<open>ip s\<close>, the offset of the opcode byte of the
  failing instruction; no value was printed; the stack is the stack of \<open>s\<close> reset, so
  its count is 0.

  Nothing else is reported. A run that returns the runtime-error result got, by
  passes that went on and printed nothing, to a machine \<open>s\<close> whose instruction failed;
  it printed no value, exactly one diagnostic and the line at \<open>ip s\<close>, and it leaves
  the stack of \<open>s\<close> reset.
\<close>

theorem C4_runtime_error_report:
  "(reaches P vm s \<and> at_opcode P s c \<and> ip s < length (lines (chunk s)) \<and> stack_ok (stack s)
      \<and> ((c \<in> {OP_GREATER_EQUAL, OP_GREATER, OP_LESS_EQUAL, OP_LESS,
                 OP_ADD, OP_SUB, OP_MULT, OP_DIV}
            \<and> contents (stack s) = xs @ [Some a, Some b]
            \<and> \<not> (IS_NUMBER a \<and> IS_NUMBER b)
            \<and> msg = ''Operands must be numbers.'')
         \<or> (c \<in> {OP_NEGATE, OP_INC, OP_DEC}
            \<and> contents (stack s) = xs @ [Some a]
            \<and> \<not> IS_NUMBER a
            \<and> msg = ''Operand must be a number.'')
         \<or> (c = OP_CONSTANT
            \<and> ip s + 1 < length (code (chunk s))
            \<and> unat (code (chunk s) ! (ip s + 1)) < length (constants (chunk s))
            \<and> \<not> IS_NUMBER (constants (chunk s) ! unat (code (chunk s) ! (ip s + 1)))
            \<and> msg = ''Operand must be a number.''))
    \<longrightarrow> run P vm
          = Inr (INTERPRET_RUNTIME_ERROR,
                 s\<lparr>ip := ip s + 1,
                    stderr := stderr vm @ [Text msg, LineInScript (lines (chunk vm) ! ip s)],
                    stack := resetStack (stack s)\<rparr>)
        \<and> stdout s = stdout vm
        \<and> count (resetStack (stack s)) = 0)
   \<and> (run P vm = Inr (INTERPRET_RUNTIME_ERROR, vm')
    \<longrightarrow> (\<exists>s msg. reaches P vm s
           \<and> step P s = Inr (Return INTERPRET_RUNTIME_ERROR vm')
           \<and> msg \<in> {''Operand must be a number.'', ''Operands must be numbers.''}
           \<and> ip s < length (lines (chunk vm))
           \<and> stderr vm' = stderr vm @ [Text msg, LineInScript (lines (chunk vm) ! ip s)]
           \<and> stdout vm' = stdout vm
           \<and> stack vm' = resetStack (stack s)
           \<and> count (stack vm') = 0))"
proof (intro conjI impI)
  assume h: "reaches P vm s \<and> at_opcode P s c \<and> ip s < length (lines (chunk s))
      \<and> stack_ok (stack s)
      \<and> ((c \<in> {OP_GREATER_EQUAL, OP_GREATER, OP_LESS_EQUAL, OP_LESS,
                 OP_ADD, OP_SUB, OP_MULT, OP_DIV}
            \<and> contents (stack s) = xs @ [Some a, Some b]
            \<and> \<not> (IS_NUMBER a \<and> IS_NUMBER b)
            \<and> msg = ''Operands must be numbers.'')
         \<or> (c \<in> {OP_NEGATE, OP_INC, OP_DEC}
            \<and> contents (stack s) = xs @ [Some a]
            \<and> \<not> IS_NUMBER a
            \<and> msg = ''Operand must be a number.'')
         \<or> (c = OP_CONSTANT
            \<and> ip s + 1 < length (code (chunk s))
            \<and> unat (code (chunk s) ! (ip s + 1)) < length (constants (chunk s))
            \<and> \<not> IS_NUMBER (constants (chunk s) ! unat (code (chunk s) ! (ip s + 1)))
            \<and> msg = ''Operand must be a number.''))"
  then have r: "reaches P vm s" and at: "at_opcode P s c"
    and ln: "ip s < length (lines (chunk s))" and ok: "stack_ok (stack s)"
    by simp_all
  from h have te: "(c \<in> {OP_GREATER_EQUAL, OP_GREATER, OP_LESS_EQUAL, OP_LESS,
                   OP_ADD, OP_SUB, OP_MULT, OP_DIV}
              \<and> contents (stack s) = xs @ [Some a, Some b]
              \<and> \<not> (IS_NUMBER a \<and> IS_NUMBER b)
              \<and> msg = ''Operands must be numbers.'')
           \<or> (c \<in> {OP_NEGATE, OP_INC, OP_DEC}
              \<and> contents (stack s) = xs @ [Some a]
              \<and> \<not> IS_NUMBER a
              \<and> msg = ''Operand must be a number.'')
           \<or> (c = OP_CONSTANT
              \<and> ip s + 1 < length (code (chunk s))
              \<and> unat (code (chunk s) ! (ip s + 1)) < length (constants (chunk s))
              \<and> \<not> IS_NUMBER (constants (chunk s) ! unat (code (chunk s) ! (ip s + 1)))
              \<and> msg = ''Operand must be a number.'')"
    by (elim conjE)
  from reaches_run [OF r] have q: "run P vm = run P s" "chunk s = chunk vm"
    "stdout s = stdout vm" "stderr s = stderr vm" by simp_all
  from run_Return [OF type_error_step [OF at ln ok te]] q
  show "run P vm
          = Inr (INTERPRET_RUNTIME_ERROR,
                 s\<lparr>ip := ip s + 1,
                    stderr := stderr vm @ [Text msg, LineInScript (lines (chunk vm) ! ip s)],
                    stack := resetStack (stack s)\<rparr>)"
    by (simp add: resetStack_def)
  from q show "stdout s = stdout vm" by simp
  show "count (resetStack (stack s)) = 0" by (simp add: resetStack_def)
next
  assume run: "run P vm = Inr (INTERPRET_RUNTIME_ERROR, vm')"
  from run_error_from [OF run] obtain s where
    s: "reaches P vm s" "step P s = Inr (Return INTERPRET_RUNTIME_ERROR vm')"
       "chunk s = chunk vm" "stdout s = stdout vm" "stderr s = stderr vm"
    by blast
  from step_error [OF s(2)] obtain msg where
    m: "msg \<in> {''Operand must be a number.'', ''Operands must be numbers.''}"
       "ip s < length (lines (chunk s))"
       "vm' = s\<lparr>ip := ip s + 1,
                 stderr := stderr s @ [Text msg, LineInScript (lines (chunk s) ! ip s)],
                 stack := (stack s)\<lparr>count := 0\<rparr>\<rparr>"
    by blast
  from m(3) s(3,4,5) have
    "stderr vm' = stderr vm @ [Text msg, LineInScript (lines (chunk vm) ! ip s)]"
    "stdout vm' = stdout vm" "stack vm' = resetStack (stack s)" "count (stack vm') = 0"
    by (simp_all add: resetStack_def)
  with s(1,2) m(1,2) s(3) show "\<exists>s msg. reaches P vm s
           \<and> step P s = Inr (Return INTERPRET_RUNTIME_ERROR vm')
           \<and> msg \<in> {''Operand must be a number.'', ''Operands must be numbers.''}
           \<and> ip s < length (lines (chunk vm))
           \<and> stderr vm' = stderr vm @ [Text msg, LineInScript (lines (chunk vm) ! ip s)]
           \<and> stdout vm' = stdout vm
           \<and> stack vm' = resetStack (stack s)
           \<and> count (stack vm') = 0"
    by auto
qed


text \<open>
  Claim C4 on the program Load-constant 1, Load-true, Add with the lines 7, 7, 8 and
  9. The loop reaches Add with the number 1 below \<open>true\<close>; the run ends with the
  runtime-error result, the diagnostic \<open>Operands must be numbers.\<close>, line 9 and a count
  of 0, and that report is the only one.
\<close>

theorem C4_number_plus_boolean:
  "reaches real_platform
     (initVM 2 \<lparr>code = [1, 0, 2, 18], constants = [NUMBER_VAL 1], lines = [7, 7, 8, 9]\<rparr>)
     \<lparr>chunk = \<lparr>code = [1, 0, 2, 18], constants = [NUMBER_VAL 1], lines = [7, 7, 8, 9]\<rparr>,
      ip = 3,
      stack = \<lparr>data = [Some (NUMBER_VAL 1), Some (BOOL_VAL True)], capacity = 2, count = 2\<rparr>,
      stdout = [], stderr = []\<rparr>
   \<and> sample_opcode_of 18 = Some OP_ADD
   \<and> run real_platform
       (initVM 2 \<lparr>code = [1, 0, 2, 18], constants = [NUMBER_VAL 1], lines = [7, 7, 8, 9]\<rparr>)
     = Inr (INTERPRET_RUNTIME_ERROR,
            \<lparr>chunk = \<lparr>code = [1, 0, 2, 18], constants = [NUMBER_VAL 1], lines = [7, 7, 8, 9]\<rparr>,
             ip = 4,
             stack = \<lparr>data = [Some (NUMBER_VAL 1), Some (BOOL_VAL True)],
                      capacity = 2, count = 0\<rparr>,
             stdout = [],
             stderr = [Text ''Operands must be numbers.'', LineInScript 9]\<rparr>)
   \<and> (\<exists>s msg. reaches real_platform
                 (initVM 2 \<lparr>code = [1, 0, 2, 18], constants = [NUMBER_VAL 1],
                            lines = [7, 7, 8, 9]\<rparr>) s
        \<and> step real_platform s
            = Inr (Return INTERPRET_RUNTIME_ERROR
                \<lparr>chunk = \<lparr>code = [1, 0, 2, 18], constants = [NUMBER_VAL 1],
                          lines = [7, 7, 8, 9]\<rparr>,
                 ip = 4,
                 stack = \<lparr>data = [Some (NUMBER_VAL 1), Some (BOOL_VAL True)],
                          capacity = 2, count = 0\<rparr>,
                 stdout = [],
                 stderr = [Text ''Operands must be numbers.'', LineInScript 9]\<rparr>)
        \<and> msg \<in> {''Operand must be a number.'', ''Operands must be numbers.''}
        \<and> ip s < 4
        \<and> [Text ''Operands must be numbers.'', LineInScript 9]
            = [Text msg, LineInScript ([7, 7, 8, 9] ! ip s)])"
proof -
  let ?c = "\<lparr>code = [1, 0, 2, 18], constants = [NUMBER_VAL (1::real)], lines = [7, 7, 8, 9]\<rparr>"
  let ?vm = "initVM 2 ?c"
  let ?s1 = "\<lparr>chunk = ?c, ip = 2,
      stack = \<lparr>data = [Some (NUMBER_VAL 1), None], capacity = 2, count = 1\<rparr>,
      stdout = [], stderr = []\<rparr>"
  let ?s2 = "\<lparr>chunk = ?c, ip = 3,
      stack = \<lparr>data = [Some (NUMBER_VAL 1), Some (BOOL_VAL True)], capacity = 2, count = 2\<rparr>,
      stdout = [], stderr = []\<rparr>"
  let ?e = "\<lparr>chunk = ?c, ip = 4,
      stack = \<lparr>data = [Some (NUMBER_VAL 1), Some (BOOL_VAL True)], capacity = 2, count = 0\<rparr>,
      stdout = [], stderr = [Text ''Operands must be numbers.'', LineInScript 9]\<rparr>"
  have st1: "step real_platform ?vm = Inr (Continue ?s1)"
    by (simp add: initVM_def initStack_2 step_def fetch_def constant_at_def Let_def
          real_platform_def sample_opcode_of_def THROW_IF_NAN_def IS_NUMBER_def
          pushStack_def isStackFull_def write_slot_def)
  have st2: "step real_platform ?s1 = Inr (Continue ?s2)"
    by (simp add: step_def fetch_def Let_def real_platform_def sample_opcode_of_def
          pushStack_def isStackFull_def write_slot_def)
  have r: "reaches real_platform ?vm ?s2"
    by (rule reaches_pass [OF st1 reaches_pass [OF st2 reaches_here]])
  have op: "sample_opcode_of 18 = Some OP_ADD" by (simp add: sample_opcode_of_def)
  then have at: "at_opcode real_platform ?s2 OP_ADD"
    by (simp add: at_opcode_def real_platform_def)
  have ok: "stack_ok (stack ?s2)"
    using stack_ok_two [of "NUMBER_VAL (1::real)" "BOOL_VAL True"] by simp
  have c: "contents (stack ?s2) = [] @ [Some (NUMBER_VAL 1), Some (BOOL_VAL True)]"
    using contents_two [of "NUMBER_VAL (1::real)" "BOOL_VAL True"] by simp
  have n: "\<not> (IS_NUMBER (NUMBER_VAL (1::real)) \<and> IS_NUMBER (BOOL_VAL True :: real Value))"
    by (simp add: IS_NUMBER_def)
  have ln: "ip ?s2 < length (lines (chunk ?s2))" by simp
  have m: "OP_ADD \<in> {OP_GREATER_EQUAL, OP_GREATER, OP_LESS_EQUAL, OP_LESS,
                      OP_ADD, OP_SUB, OP_MULT, OP_DIV}" by simp
  note inst = C4_runtime_error_report
    [where P = real_platform and vm = ?vm and s = ?s2 and c = OP_ADD and xs = "[]"
       and a = "NUMBER_VAL 1" and b = "BOOL_VAL True" and msg = "''Operands must be numbers.''"
       and vm' = ?e]
  from inst [THEN conjunct1] r at ln ok c n m
  have "run real_platform ?vm
          = Inr (INTERPRET_RUNTIME_ERROR,
                 ?s2\<lparr>ip := ip ?s2 + 1,
                    stderr := stderr ?vm @ [Text ''Operands must be numbers.'',
                                            LineInScript (lines (chunk ?vm) ! ip ?s2)],
                    stack := resetStack (stack ?s2)\<rparr>)"
    by blast
  then have run: "run real_platform ?vm = Inr (INTERPRET_RUNTIME_ERROR, ?e)"
    by (simp add: initVM_def resetStack_def)
  from inst [THEN conjunct2, rule_format, OF run] obtain s msg where
    "reaches real_platform ?vm s"
    "step real_platform s = Inr (Return INTERPRET_RUNTIME_ERROR ?e)"
    "msg \<in> {''Operand must be a number.'', ''Operands must be numbers.''}"
    "ip s < 4"
    "[Text ''Operands must be numbers.'', LineInScript 9]
       = [Text msg, LineInScript ([7, 7, 8, 9] ! ip s)]"
    by (auto simp: initVM_def)
  with r op run show ?thesis by blast
qed

end
